theory Spec2Isabelle
  imports Main "HOL-Library.AList"
begin

section \<open>Entities and the store (src/services/notes.js)\<close>

text \<open>
  The three tree entities, with the columns the services read and write. A column that
  may hold SQL NULL is an option. The tables are lists of rows in insertion order; a row
  is found by its primary key, and saving an entity is an upsert on that key.
\<close>

record Note =
  noteId :: string
  title :: string
  n_type :: string
  mime :: string
  isProtected :: bool
  n_isDeleted :: bool
  n_deleteId :: "string option"
  utcDateCreated :: int

record Branch =
  branchId :: string
  b_noteId :: string
  parentNoteId :: string
  notePosition :: "int option"
  prefix :: "string option"
  isExpanded :: bool
  b_isDeleted :: bool
  b_deleteId :: "string option"

record Attribute =
  attributeId :: string
  a_noteId :: string
  a_type :: string
  a_name :: string
  a_value :: string
  a_position :: int
  isInheritable :: bool
  a_isDeleted :: bool
  a_deleteId :: "string option"

record NoteRevision =
  noteRevisionId :: string
  r_noteId :: string
  r_utcDateCreated :: int

datatype entity_change = NoteChange string | BranchChange string | AttributeChange string

text \<open>
  The store: the three tables, the content column of each note, the note revisions, the
  journal of saves in the order they happened, the counter behind
  \<open>utils.newEntityId()\<close> and the progress counter of the task context. Times are
  milliseconds (\<open>Date.getTime()\<close>); the date strings of the tables have that precision
  and compare as their times do.
\<close>

record store =
  t_notes :: "Note list"
  t_branches :: "Branch list"
  t_attributes :: "Attribute list"
  t_contents :: "(string \<times> string) list"
  t_revisions :: "NoteRevision list"
  journal :: "entity_change list"
  idCounter :: nat
  progressCount :: nat

datatype error = Error string

fun upsert :: "('a \<Rightarrow> string) \<Rightarrow> 'a \<Rightarrow> 'a list \<Rightarrow> 'a list" where
  "upsert key x [] = [x]"
| "upsert key x (y # ys) = (if key y = key x then x # ys else y # upsert key x ys)"

definition getNote :: "store \<Rightarrow> string \<Rightarrow> Note option" where
  "getNote s nid = find (\<lambda>n. noteId n = nid) (t_notes s)"


definition getAttribute :: "store \<Rightarrow> string \<Rightarrow> Attribute option" where
  "getAttribute s aid = find (\<lambda>a. attributeId a = aid) (t_attributes s)"

definition saveNote :: "Note \<Rightarrow> store \<Rightarrow> store" where
  "saveNote n s = s\<lparr>t_notes := upsert noteId n (t_notes s),
                     journal := journal s @ [NoteChange (noteId n)]\<rparr>"

definition saveBranch :: "Branch \<Rightarrow> store \<Rightarrow> store" where
  "saveBranch b s = s\<lparr>t_branches := upsert branchId b (t_branches s),
                       journal := journal s @ [BranchChange (branchId b)]\<rparr>"

definition saveAttribute :: "Attribute \<Rightarrow> store \<Rightarrow> store" where
  "saveAttribute a s = s\<lparr>t_attributes := upsert attributeId a (t_attributes s),
                          journal := journal s @ [AttributeChange (attributeId a)]\<rparr>"

definition setContent :: "string \<Rightarrow> string \<Rightarrow> store \<Rightarrow> store" where
  "setContent nid c s = s\<lparr>t_contents := upsert fst (nid, c) (t_contents s)\<rparr>"

text \<open>
  \<open>utils.newEntityId()\<close> returns a random identifier. The model draws identifiers from a
  sequence \<open>gen\<close> given by the caller and counts the draws in the store.
\<close>

definition newEntityId :: "(nat \<Rightarrow> string) \<Rightarrow> store \<Rightarrow> string \<times> store" where
  "newEntityId gen s = (gen (idCounter s), s\<lparr>idCounter := Suc (idCounter s)\<rparr>)"

section \<open>Creating a note\<close>

text \<open>
  \<open>SELECT MAX(notePosition) FROM branches WHERE parentNoteId = ? AND isDeleted = 0\<close>:
  the aggregate skips NULL positions and is NULL when no row is left.
\<close>

definition siblingPositions :: "store \<Rightarrow> string \<Rightarrow> int list" where
  "siblingPositions s pid =
     List.map_filter notePosition
       (filter (\<lambda>b. parentNoteId b = pid \<and> \<not> b_isDeleted b) (t_branches s))"

definition maxNotePos :: "store \<Rightarrow> string \<Rightarrow> int option" where
  "maxNotePos s pid =
     (case siblingPositions s pid of [] \<Rightarrow> None | p # ps \<Rightarrow> Some (fold max ps p))"

text \<open>
  A position is a JavaScript number, a double; the positions of the table are integers
  that a double holds, below \<open>2 ^ 1024\<close> in size. The sum of two of them is the exact sum
  rounded to the nearest double, a tie going to the even significand: \<open>ulp n\<close> is the
  distance between the doubles around \<open>n\<close>, 1 below \<open>2 ^ 53\<close> and doubling with every
  further bit.
\<close>

fun ulp :: "nat \<Rightarrow> nat" where
  "ulp n = (if n < 2 ^ 53 then 1 else 2 * ulp (n div 2))"

declare ulp.simps [simp del]

definition roundToDouble :: "int \<Rightarrow> int" where
  "roundToDouble x =
     (let a = nat \<bar>x\<bar>; u = ulp a; q = a div u; r = a mod u;
          q' = (if 2 * r < u then q else if u < 2 * r then q + 1
                else if even q then q else q + 1)
      in sgn x * int (q' * u))"

definition jsAdd :: "int \<Rightarrow> int \<Rightarrow> int" where
  "jsAdd a b = roundToDouble (a + b)"

definition getNewNotePosition :: "store \<Rightarrow> string \<Rightarrow> int" where
  "getNewNotePosition s pid = (case maxNotePos s pid of None \<Rightarrow> 0 | Some m \<Rightarrow> jsAdd m 10)"

definition deriveMime :: "string option \<Rightarrow> string option \<Rightarrow> error + string" where
  "deriveMime ty mi =
     (case ty of
        None \<Rightarrow> Inl (Error ''Note type is a required param'')
      | Some t \<Rightarrow>
          if t = [] then Inl (Error ''Note type is a required param'')
          else if mi \<noteq> None \<and> mi \<noteq> Some [] then Inr (the mi)
          else if t = ''text'' then Inr ''text/html''
          else if t = ''code'' then Inr ''text/plain''
          else if t \<in> set [''relation-map'', ''search'', ''canvas-note''] then Inr ''application/json''
          else if t \<in> set [''render'', ''book''] then Inr []
          else Inr ''application/octet-stream'')"

record params =
  p_parentNoteId :: string
  p_title :: "string option"
  p_content :: string
  p_type :: "string option"
  p_mime :: "string option"
  p_noteId :: "string option"
  p_isProtected :: bool
  p_isExpanded :: bool
  p_prefix :: "string option"
  p_notePosition :: "int option"

text \<open>
  A string is a list of code units below 256 (Latin-1). Of these,
  \<open>String.prototype.trim\<close> strips tab, line feed, vertical tab, form feed, carriage
  return, space and the no-break space U+00A0.
\<close>

definition isWhiteSpace :: "char \<Rightarrow> bool" where
  "isWhiteSpace c =
     (c \<in> set [CHR 0x09, CHR 0x0A, CHR 0x0B, CHR 0x0C, CHR 0x0D, CHR 0x20, CHR 0xA0])"

definition blankTitle :: "string option \<Rightarrow> bool" where
  "blankTitle t = (case t of None \<Rightarrow> True | Some x \<Rightarrow> x = [] \<or> list_all isWhiteSpace x)"

text \<open>
  \<open>copyChildAttributes\<close>: every attribute of the parent whose name starts with
  \<open>child:\<close> is saved on the child under the rest of the name. The parent's effective
  attributes (\<open>parentNote.getAttributes()\<close>, the server-side resolver) are an argument.
\<close>

definition startsWith :: "string \<Rightarrow> string \<Rightarrow> bool" where
  "startsWith str p = (take (length p) str = p)"

fun copyChildAttributes :: "(nat \<Rightarrow> string) \<Rightarrow> Attribute list \<Rightarrow> string \<Rightarrow> store \<Rightarrow> store" where
  "copyChildAttributes gen [] child s = s"
| "copyChildAttributes gen (attr # attrs) child s =
     (if startsWith (a_name attr) ''child:'' then
        (let (aid, s1) = newEntityId gen s;
             s2 = saveAttribute
                    \<lparr>attributeId = aid, a_noteId = child, a_type = a_type attr,
                     a_name = drop 6 (a_name attr), a_value = a_value attr,
                     a_position = a_position attr, isInheritable = isInheritable attr,
                     a_isDeleted = False, a_deleteId = None\<rparr> s1
         in copyChildAttributes gen attrs child s2)
      else copyChildAttributes gen attrs child s)"

text \<open>
  \<open>createNewNote\<close>. The two checks before the transaction raise; inside it the note is
  saved, then its content, then the branch, whose position is the explicit one or
  \<open>getNewNotePosition\<close>. \<open>scanForLinks\<close> (regular expressions over the content and
  image downloads) is the argument \<open>scan\<close>, applied to the store after the branch is
  saved; the events emitted at the end change no row. \<open>now\<close> is the creation time.
\<close>

definition createNewNote ::
  "(nat \<Rightarrow> string) \<Rightarrow> (Note \<Rightarrow> store \<Rightarrow> store) \<Rightarrow> Attribute list \<Rightarrow> int \<Rightarrow> params \<Rightarrow> store
     \<Rightarrow> error + (Note \<times> Branch \<times> store)" where
  "createNewNote gen scan parentAttrs now ps s =
     (case getNote s (p_parentNoteId ps) of
        None \<Rightarrow> Inl (Error ''Parent note not found.'')
      | Some parentNote \<Rightarrow>
          if blankTitle (p_title ps) then Inl (Error ''Note title must not be empty'')
          else
            (case deriveMime (p_type ps) (p_mime ps) of
               Inl e \<Rightarrow> Inl e
             | Inr m \<Rightarrow>
                 (let (nid, s1) = (case p_noteId ps of Some i \<Rightarrow> (i, s) | None \<Rightarrow> newEntityId gen s);
                      note = \<lparr>noteId = nid, title = the (p_title ps), n_type = the (p_type ps),
                              mime = m, isProtected = p_isProtected ps, n_isDeleted = False,
                              n_deleteId = None, utcDateCreated = now\<rparr>;
                      s2 = setContent nid (p_content ps) (saveNote note s1);
                      (bid, s3) = newEntityId gen s2;
                      branch = \<lparr>branchId = bid, b_noteId = nid,
                                parentNoteId = p_parentNoteId ps,
                                notePosition =
                                  (case p_notePosition ps of
                                     Some p \<Rightarrow> Some p
                                   | None \<Rightarrow> Some (getNewNotePosition s3 (p_parentNoteId ps))),
                                prefix = p_prefix ps, isExpanded = p_isExpanded ps,
                                b_isDeleted = False, b_deleteId = None\<rparr>;
                      s4 = saveBranch branch s3;
                      s5 = copyChildAttributes gen parentAttrs nid (scan note s4)
                  in Inr (note, branch, s5))))"

section \<open>Deleting a branch\<close>

text \<open>
  Modelled from the spec: the queries of the server-side Note entity, whose file is not
  among the sources. \<open>note.getBranches()\<close> are the note's branches that are not deleted
  (\<open>deleteBranch\<close> binds them to \<open>notDeletedBranches\<close>), \<open>note.getChildBranches()\<close>
  the branches under the note that are not deleted, \<open>note.getOwnedAttributes()\<close> the
  note's own attributes that are not deleted and \<open>note.getTargetRelations()\<close> the
  relations that are not deleted and whose value is the note. Each query returns copies
  of the rows as they are in the store at the time of the call.
\<close>

definition getBranches :: "store \<Rightarrow> string \<Rightarrow> Branch list" where
  "getBranches s nid = filter (\<lambda>b. b_noteId b = nid \<and> \<not> b_isDeleted b) (t_branches s)"

definition getChildBranches :: "store \<Rightarrow> string \<Rightarrow> Branch list" where
  "getChildBranches s nid = filter (\<lambda>b. parentNoteId b = nid \<and> \<not> b_isDeleted b) (t_branches s)"

definition getOwnedAttributes :: "store \<Rightarrow> string \<Rightarrow> Attribute list" where
  "getOwnedAttributes s nid = filter (\<lambda>a. a_noteId a = nid \<and> \<not> a_isDeleted a) (t_attributes s)"

definition getTargetRelations :: "store \<Rightarrow> string \<Rightarrow> Attribute list" where
  "getTargetRelations s nid =
     filter (\<lambda>a. a_type a = ''relation'' \<and> a_value a = nid \<and> \<not> a_isDeleted a) (t_attributes s)"

definition markBranch :: "string \<Rightarrow> Branch \<Rightarrow> Branch" where
  "markBranch d b = b\<lparr>b_isDeleted := True, b_deleteId := Some d\<rparr>"

definition markNote :: "string \<Rightarrow> Note \<Rightarrow> Note" where
  "markNote d n = n\<lparr>n_isDeleted := True, n_deleteId := Some d\<rparr>"

definition markAttribute :: "string \<Rightarrow> Attribute \<Rightarrow> Attribute" where
  "markAttribute d a = a\<lparr>a_isDeleted := True, a_deleteId := Some d\<rparr>"

definition markAttributes :: "string \<Rightarrow> Attribute list \<Rightarrow> store \<Rightarrow> store" where
  "markAttributes d as s = fold (\<lambda>a. saveAttribute (markAttribute d a)) as s"

text \<open>
  \<open>deleteBranch(branch, deleteId, taskContext)\<close>. The branch is the object the caller
  holds (absent is \<open>None\<close>), a copy of a row that the store may have changed since; the
  hoisted note is \<open>cls.getHoistedNoteId()\<close>. The recursion over the child branches is
  bounded by \<open>fuel\<close>: \<open>None\<close> is a run that needs more. A raised error leaves the
  function with \<open>Inl\<close>. The note object is read before the children are deleted and
  saved after, as in the source.
\<close>

function deleteBranch ::
    "nat \<Rightarrow> string \<Rightarrow> Branch option \<Rightarrow> string \<Rightarrow> store \<Rightarrow> (error + bool \<times> store) option"
  and deleteChildBranches ::
    "nat \<Rightarrow> string \<Rightarrow> Branch list \<Rightarrow> string \<Rightarrow> store \<Rightarrow> (error + store) option" where
  "deleteBranch 0 hoisted branch deleteId s = None"
| "deleteBranch (Suc fuel) hoisted branch deleteId s =
     (let s0 = s\<lparr>progressCount := Suc (progressCount s)\<rparr> in
      case branch of
        None \<Rightarrow> Some (Inr (False, s0))
      | Some b \<Rightarrow>
          if b_isDeleted b then Some (Inr (False, s0))
          else if branchId b = ''root'' \<or> b_noteId b = ''root'' \<or> b_noteId b = hoisted
          then Some (Inl (Error ''Can't delete root branch/note''))
          else
            (let s1 = saveBranch (markBranch deleteId b) s0 in
             case getNote s1 (b_noteId b) of
               None \<Rightarrow> Some (Inl (Error ''TypeError: note is null''))
             | Some n \<Rightarrow>
                 if getBranches s1 (noteId n) = [] then
                   (case deleteChildBranches fuel hoisted (getChildBranches s1 (noteId n)) deleteId s1 of
                      None \<Rightarrow> None
                    | Some (Inl e) \<Rightarrow> Some (Inl e)
                    | Some (Inr s2) \<Rightarrow>
                        (let s3 = saveNote (markNote deleteId n) s2;
                             s4 = markAttributes deleteId (getOwnedAttributes s3 (noteId n)) s3;
                             s5 = markAttributes deleteId (getTargetRelations s4 (noteId n)) s4
                         in Some (Inr (True, s5))))
                 else Some (Inr (False, s1))))"
| "deleteChildBranches fuel hoisted [] deleteId s = Some (Inr s)"
| "deleteChildBranches fuel hoisted (childBranch # rest) deleteId s =
     (case deleteBranch fuel hoisted (Some childBranch) deleteId s of
        None \<Rightarrow> None
      | Some (Inl e) \<Rightarrow> Some (Inl e)
      | Some (Inr (r, s')) \<Rightarrow> deleteChildBranches fuel hoisted rest deleteId s')"
  by pat_completeness auto
termination
  by (relation "inv_image (less_than <*lex*> less_than)
        (\<lambda>x. case x of Inl (fuel, r) \<Rightarrow> (fuel, 0)
                      | Inr (fuel, hoisted, cs, r) \<Rightarrow> (fuel, Suc (length cs)))")
     auto

section \<open>Duplicating a subtree\<close>

definition endsWith :: "string \<Rightarrow> string \<Rightarrow> bool" where
  "endsWith str suf = (length suf \<le> length str \<and> drop (length str - length suf) str = suf)"

text \<open>The title step of \<open>duplicateSubtree\<close>: the suffix is added unless the title ends with it.\<close>

definition dupTitle :: "string \<Rightarrow> string" where
  "dupTitle t = (if \<not> endsWith t ''(dup)'' then t @ '' (dup)'' else t)"

text \<open>
  Modelled from the spec: \<open>note.getDescendantNoteIds()\<close> of the server-side Note entity,
  whose file is not among the sources: the note itself and every note under it. The
  notes under a set of notes are followed along the branches that are not deleted, once
  per branch of the store at most, which reaches every descendant.
\<close>

definition expandChildren :: "store \<Rightarrow> string list \<Rightarrow> string list" where
  "expandChildren s ids =
     remdups (ids @ map b_noteId
        (filter (\<lambda>b. parentNoteId b \<in> set ids \<and> \<not> b_isDeleted b) (t_branches s)))"

definition getDescendantNoteIds :: "store \<Rightarrow> string \<Rightarrow> string list" where
  "getDescendantNoteIds s nid = ((expandChildren s) ^^ (length (t_branches s))) [nid]"

text \<open>
  \<open>getNoteIdMapping\<close>: a new identifier for each descendant, drawn before anything is
  cloned. The mapping is an object literal, here the association list of its own
  entries; a later entry for the same key replaces the earlier one, as an assignment to
  a property does. Besides its own entries the object has the properties that every
  object inherits from \<open>Object.prototype\<close>: \<open>key in obj\<close> holds for these names too, and
  \<open>obj[key]\<close> is then the inherited member, which is no string. An assignment to
  \<open>__proto__\<close> calls the inherited setter, which ignores a string, and adds no entry.
\<close>

type_synonym noteIdMapping = "(string \<times> string) list"

definition objectPrototypeNames :: "string list" where
  "objectPrototypeNames =
     [''constructor'', ''hasOwnProperty'', ''isPrototypeOf'', ''propertyIsEnumerable'',
      ''toLocaleString'', ''toString'', ''valueOf'', ''__proto__'', ''__defineGetter__'',
      ''__defineSetter__'', ''__lookupGetter__'', ''__lookupSetter__'']"

datatype jsValue = JsString string | JsInherited string

definition hasProperty :: "noteIdMapping \<Rightarrow> string \<Rightarrow> bool" where
  "hasProperty m k = (map_of m k \<noteq> None \<or> k \<in> set objectPrototypeNames)"

definition getProperty :: "noteIdMapping \<Rightarrow> string \<Rightarrow> jsValue option" where
  "getProperty m k =
     (case map_of m k of
        Some v \<Rightarrow> Some (JsString v)
      | None \<Rightarrow> if k \<in> set objectPrototypeNames then Some (JsInherited k) else None)"

definition setProperty :: "string \<Rightarrow> string \<Rightarrow> noteIdMapping \<Rightarrow> noteIdMapping" where
  "setProperty k v m = (if k = ''__proto__'' then m else AList.update k v m)"

fun assignIds :: "(nat \<Rightarrow> string) \<Rightarrow> string list \<Rightarrow> noteIdMapping \<Rightarrow> store \<Rightarrow> noteIdMapping \<times> store" where
  "assignIds gen [] m s = (m, s)"
| "assignIds gen (origNoteId # rest) m s =
     (let (i, s') = newEntityId gen s in assignIds gen rest (setProperty origNoteId i m) s')"

definition getNoteIdMapping :: "(nat \<Rightarrow> string) \<Rightarrow> Note \<Rightarrow> store \<Rightarrow> noteIdMapping \<times> store" where
  "getNoteIdMapping gen origNote s = assignIds gen (getDescendantNoteIds s (noteId origNote)) [] s"

text \<open>
  \<open>replaceByMap\<close>: the regular expression is the alternation of the keys, applied
  globally from left to right; at each position the first key that matches is replaced
  by its value and the scan goes on behind the match. Keys are note identifiers and not
  empty; an empty key is skipped.
\<close>

fun matchKey :: "noteIdMapping \<Rightarrow> string \<Rightarrow> (string \<times> string) option" where
  "matchKey [] str = None"
| "matchKey ((k, v) # m) str =
     (if k \<noteq> [] \<and> startsWith str k then Some (k, v) else matchKey m str)"

fun replaceFrom :: "noteIdMapping \<Rightarrow> nat \<Rightarrow> string \<Rightarrow> string" where
  "replaceFrom m skip [] = []"
| "replaceFrom m (Suc skip) (c # cs) = replaceFrom m skip cs"
| "replaceFrom m 0 (c # cs) =
     (case matchKey m (c # cs) of
        Some (k, v) \<Rightarrow> v @ replaceFrom m (length k - 1) cs
      | None \<Rightarrow> c # replaceFrom m 0 cs)"

definition replaceByMap :: "string \<Rightarrow> noteIdMapping \<Rightarrow> string" where
  "replaceByMap str mapObj = replaceFrom mapObj 0 str"

text \<open>
  The body of the loop over the owned attributes in \<open>duplicateSubtreeInner\<close>: the copy
  gets a new identifier and the new owner, and when it is a relation whose value is
  \<open>in\<close> the mapping, its value becomes \<open>noteIdMapping[attr.value]\<close> (\<open>clonedValue\<close>).
  Saving an attribute whose value is no string is beyond the sources; the model raises
  there, as the SQL driver binds strings, numbers, buffers and null only.
\<close>

definition clonedValue :: "noteIdMapping \<Rightarrow> Attribute \<Rightarrow> jsValue" where
  "clonedValue m attr =
     (if a_type attr = ''relation'' \<and> hasProperty m (a_value attr)
      then (case getProperty m (a_value attr) of Some v \<Rightarrow> v | None \<Rightarrow> JsString (a_value attr))
      else JsString (a_value attr))"

definition cloneAttribute :: "noteIdMapping \<Rightarrow> string \<Rightarrow> string \<Rightarrow> Attribute \<Rightarrow> error + Attribute" where
  "cloneAttribute m newAttributeId newNoteId attribute =
     (let attr = attribute\<lparr>attributeId := newAttributeId, a_noteId := newNoteId\<rparr> in
      case clonedValue m attr of
        JsString v \<Rightarrow> Inr (attr\<lparr>a_value := v\<rparr>)
      | JsInherited k \<Rightarrow> Inl (Error ''TypeError: the value of the attribute is not a string''))"

fun cloneAttributes ::
    "(nat \<Rightarrow> string) \<Rightarrow> noteIdMapping \<Rightarrow> string \<Rightarrow> Attribute list \<Rightarrow> store \<Rightarrow> error + store" where
  "cloneAttributes gen m newNoteId [] s = Inr s"
| "cloneAttributes gen m newNoteId (attribute # rest) s =
     (let (aid, s1) = newEntityId gen s
      in case cloneAttribute m aid newNoteId attribute of
           Inl e \<Rightarrow> Inl e
         | Inr attr \<Rightarrow> cloneAttributes gen m newNoteId rest (saveAttribute attr s1))"

definition getContent :: "store \<Rightarrow> string \<Rightarrow> string option" where
  "getContent s nid = map_option snd (find (\<lambda>r. fst r = nid) (t_contents s))"

text \<open>
  \<open>duplicateSubtreeInner\<close>. \<open>session\<close> tells whether the protected session is available,
  \<open>now\<close> is the time of the call. The recursion over the child branches is bounded by
  \<open>fuel\<close>. The model raises where the source would go on with a value that is no
  string or no object: a note whose \<open>noteIdMapping[origNote.noteId]\<close> is undefined or
  inherited, a child branch without a note, a note without a content row. An absent \<open>origBranch\<close> gives the position \<open>null\<close>, and \<open>null + 1\<close> is 1.
\<close>

datatype cloneStep = Raise error | Existing Note Branch store | Continue Note Branch store

definition cloneNote ::
    "(nat \<Rightarrow> string) \<Rightarrow> bool \<Rightarrow> int \<Rightarrow> Note \<Rightarrow> Branch option \<Rightarrow> string \<Rightarrow> noteIdMapping \<Rightarrow> store
       \<Rightarrow> cloneStep" where
  "cloneNote gen session now origNote origBranch newParentNoteId m s =
     (if isProtected origNote \<and> \<not> session
      then Raise (Error ''Cannot duplicate note because it is protected'')
      else
        (case getProperty m (noteId origNote) of
           None \<Rightarrow> Raise (Error ''no new noteId for the note'')
         | Some (JsInherited k) \<Rightarrow> Raise (Error ''no new noteId for the note'')
         | Some (JsString newNoteId) \<Rightarrow>
             (let (bid, s1) = newEntityId gen s;
                  newBranch = \<lparr>branchId = bid, b_noteId = newNoteId,
                      parentNoteId = newParentNoteId,
                      notePosition =
                        (case origBranch of
                           None \<Rightarrow> None
                         | Some ob \<Rightarrow> Some (jsAdd (case notePosition ob of None \<Rightarrow> 0 | Some p \<Rightarrow> p) 1)),
                      prefix = None, isExpanded = False, b_isDeleted = False,
                      b_deleteId = None\<rparr>;
                  s2 = saveBranch newBranch s1
              in case getNote s2 newNoteId of
                   Some existingNote \<Rightarrow> Existing existingNote newBranch s2
                 | None \<Rightarrow>
                     (let newNote = origNote\<lparr>noteId := newNoteId, utcDateCreated := now\<rparr>;
                          s3 = saveNote newNote s2
                      in case getContent s3 (noteId origNote) of
                           None \<Rightarrow> Raise (Error ''Cannot find note content'')
                         | Some c \<Rightarrow>
                             (let content =
                                    (if n_type origNote \<in> set [''text'', ''relation-map'', ''search'']
                                     then replaceByMap c m else c);
                                  s4 = setContent newNoteId content s3
                              in case cloneAttributes gen m newNoteId
                                        (getOwnedAttributes s4 (noteId origNote)) s4 of
                                   Inl e \<Rightarrow> Raise e
                                 | Inr s5 \<Rightarrow> Continue newNote newBranch s5)))))"

text \<open>
  The recursion: \<open>cloneNote\<close> is the part of \<open>duplicateSubtreeInner\<close> before the loop
  over the child branches (the new branch, the early return for a note that exists
  already, the new note, its content and its attributes).
\<close>

function duplicateSubtreeInner ::
    "nat \<Rightarrow> (nat \<Rightarrow> string) \<Rightarrow> bool \<Rightarrow> int \<Rightarrow> Note \<Rightarrow> Branch option \<Rightarrow> string \<Rightarrow> noteIdMapping \<Rightarrow> store
       \<Rightarrow> (error + Note \<times> Branch \<times> store) option"
  and duplicateChildren ::
    "nat \<Rightarrow> (nat \<Rightarrow> string) \<Rightarrow> bool \<Rightarrow> int \<Rightarrow> Branch list \<Rightarrow> string \<Rightarrow> noteIdMapping \<Rightarrow> store
       \<Rightarrow> (error + store) option" where
  "duplicateSubtreeInner 0 gen session now origNote origBranch newParentNoteId m s = None"
| "duplicateSubtreeInner (Suc fuel) gen session now origNote origBranch newParentNoteId m s =
     (case cloneNote gen session now origNote origBranch newParentNoteId m s of
        Raise e \<Rightarrow> Some (Inl e)
      | Existing existingNote newBranch s2 \<Rightarrow> Some (Inr (existingNote, newBranch, s2))
      | Continue newNote newBranch s5 \<Rightarrow>
          (case duplicateChildren fuel gen session now
                  (getChildBranches s5 (noteId origNote)) (noteId newNote) m s5 of
             None \<Rightarrow> None
           | Some (Inl e) \<Rightarrow> Some (Inl e)
           | Some (Inr s6) \<Rightarrow> Some (Inr (newNote, newBranch, s6))))"
| "duplicateChildren fuel gen session now [] newParentNoteId m s = Some (Inr s)"
| "duplicateChildren fuel gen session now (childBranch # rest) newParentNoteId m s =
     (case getNote s (b_noteId childBranch) of
        None \<Rightarrow> Some (Inl (Error ''TypeError: note is null''))
      | Some childNote \<Rightarrow>
          (case duplicateSubtreeInner fuel gen session now childNote (Some childBranch)
                  newParentNoteId m s of
             None \<Rightarrow> None
           | Some (Inl e) \<Rightarrow> Some (Inl e)
           | Some (Inr (n, b, s')) \<Rightarrow> duplicateChildren fuel gen session now rest newParentNoteId m s'))"
  by pat_completeness auto
termination
  by (relation "inv_image (less_than <*lex*> less_than)
        (\<lambda>x. case x of Inl (fuel, r) \<Rightarrow> (fuel, 0)
                      | Inr (fuel, gen, session, now, cs, r) \<Rightarrow> (fuel, Suc (length cs)))")
     auto

definition duplicateSubtree ::
    "nat \<Rightarrow> (nat \<Rightarrow> string) \<Rightarrow> bool \<Rightarrow> int \<Rightarrow> string \<Rightarrow> string \<Rightarrow> store
       \<Rightarrow> (error + Note \<times> Branch \<times> store) option" where
  "duplicateSubtree fuel gen session now origNoteId newParentNoteId s =
     (if origNoteId = ''root'' then Some (Inl (Error ''Duplicating root is not possible''))
      else
        (case getNote s origNoteId of
           None \<Rightarrow> Some (Inl (Error ''TypeError: origNote is null''))
         | Some origNote \<Rightarrow>
             (let origBranch = find (\<lambda>branch. parentNoteId branch = newParentNoteId)
                                    (getBranches s (noteId origNote));
                  (m, s1) = getNoteIdMapping gen origNote s
              in case duplicateSubtreeInner fuel gen session now origNote origBranch
                        newParentNoteId m s1 of
                   None \<Rightarrow> None
                 | Some (Inl e) \<Rightarrow> Some (Inl e)
                 | Some (Inr (resNote, resBranch, s2)) \<Rightarrow>
                     (let n = resNote\<lparr>title := dupTitle (title resNote)\<rparr>
                      in Some (Inr (n, resBranch, saveNote n s2))))))"

section \<open>Updating a note\<close>

text \<open>
  \<open>note.hasLabel(name)\<close> looks among the note's effective attributes, which the
  server-side resolver computes; they are the argument \<open>attrs\<close>.
\<close>

definition hasLabel :: "Attribute list \<Rightarrow> string \<Rightarrow> bool" where
  "hasLabel attrs nm = list_ex (\<lambda>a. a_type a = ''label'' \<and> a_name a = nm) attrs"

text \<open>
  \<open>SELECT noteRevisionId FROM note_revisions WHERE noteId = ? AND utcDateCreated >= ?\<close>,
  read with \<open>sql.getValue\<close>: the identifier of the first such row, if any.
\<close>

definition existingNoteRevisionId :: "store \<Rightarrow> string \<Rightarrow> int \<Rightarrow> string option" where
  "existingNoteRevisionId s nid revisionCutoff =
     map_option noteRevisionId
       (find (\<lambda>r. r_noteId r = nid \<and> r_utcDateCreated r \<ge> revisionCutoff) (t_revisions s))"

text \<open>
  Modelled from the spec: \<open>noteRevisionService.createNoteRevision\<close>, whose file is not
  among the sources: a new revision of the note is taken, dated now.
\<close>

definition createNoteRevision :: "(nat \<Rightarrow> string) \<Rightarrow> int \<Rightarrow> Note \<Rightarrow> store \<Rightarrow> store" where
  "createNoteRevision gen now n s =
     (let (rid, s1) = newEntityId gen s
      in s1\<lparr>t_revisions := t_revisions s1 @
               [\<lparr>noteRevisionId = rid, r_noteId = noteId n, r_utcDateCreated = now\<rparr>]\<rparr>)"

text \<open>
  \<open>saveNoteRevision\<close>. \<open>interval\<close> is the option \<open>noteRevisionSnapshotTimeInterval\<close>
  in seconds. An identifier that is absent or the empty string is false in the test
  \<open>!existingNoteRevisionId\<close>.
\<close>

definition saveNoteRevision ::
    "(nat \<Rightarrow> string) \<Rightarrow> Attribute list \<Rightarrow> int \<Rightarrow> int \<Rightarrow> Note \<Rightarrow> store \<Rightarrow> store" where
  "saveNoteRevision gen attrs now interval n s =
     (if n_type n = ''file'' \<or> n_type n = ''image'' \<or> hasLabel attrs ''disableVersioning''
      then s
      else
        (let revisionCutoff = now - interval * 1000;
             existing = existingNoteRevisionId s (noteId n) revisionCutoff;
             msSinceDateCreated = now - utcDateCreated n
         in if (existing = None \<or> existing = Some []) \<and> msSinceDateCreated \<ge> interval * 1000
            then createNoteRevision gen now n s
            else s))"

record noteUpdates =
  u_title :: string
  u_isProtected :: bool
  u_content :: "string option"

text \<open>
  The rest of \<open>updateNote\<close> after the revision step. \<open>saveLinks\<close> (regular expressions
  and image downloads) is the argument \<open>links\<close>: it returns the content to store and
  the store it leaves. The content of a file or image whose protection changes is read
  back first. The title event and the protection of the revisions change no row here.
\<close>

definition applyNoteUpdates ::
    "(Note \<Rightarrow> string \<Rightarrow> store \<Rightarrow> string \<times> store) \<Rightarrow> noteUpdates \<Rightarrow> Note \<Rightarrow> store \<Rightarrow> store" where
  "applyNoteUpdates links upd n s =
     (let content =
            (if n_type n \<in> set [''file'', ''image''] \<and> isProtected n \<noteq> u_isProtected upd
             then getContent s (noteId n) else u_content upd);
          n1 = n\<lparr>title := u_title upd, isProtected := u_isProtected upd\<rparr>;
          s1 = saveNote n1 s
      in case content of
           None \<Rightarrow> s1
         | Some c \<Rightarrow> (let (c1, s2) = links n1 c s1 in setContent (noteId n1) c1 s2))"

text \<open>
  \<open>updateNote\<close>: the note must exist and its content be available (it is not protected,
  or the protected session is open); the revision step comes first.
\<close>

definition updateNote ::
    "(nat \<Rightarrow> string) \<Rightarrow> (Note \<Rightarrow> string \<Rightarrow> store \<Rightarrow> string \<times> store) \<Rightarrow> bool \<Rightarrow> Attribute list \<Rightarrow> int \<Rightarrow> int
       \<Rightarrow> string \<Rightarrow> noteUpdates \<Rightarrow> store \<Rightarrow> error + store" where
  "updateNote gen links session attrs now interval nid upd s =
     (case getNote s nid of
        None \<Rightarrow> Inl (Error ''TypeError: note is null'')
      | Some n \<Rightarrow>
          if isProtected n \<and> \<not> session then Inl (Error ''Note is not available for change!'')
          else Inr (applyNoteUpdates links upd n (saveNoteRevision gen attrs now interval n s)))"

text \<open>How many times the title ends with the suffix: the number of \<open>(dup)\<close> that can be cut off its end.\<close>

function trailingDups :: "string \<Rightarrow> nat" where
  "trailingDups t =
     (if endsWith t ''(dup)'' then Suc (trailingDups (take (length t - 5) t)) else 0)"
  by pat_completeness auto
termination
  by (relation "measure length") (auto simp: endsWith_def)

declare trailingDups.simps [simp del]

definition succeeded :: "(error + 'a) option \<Rightarrow> bool" where
  "succeeded r = (case r of Some (Inr x) \<Rightarrow> True | _ \<Rightarrow> False)"

text \<open>
  A small tree: \<open>doc\<close> under \<open>parent\<close> with the child \<open>sub\<close>; \<open>doc\<close> owns a label, a
  relation to its child and a relation to its parent.
\<close>

definition mkNote :: "string \<Rightarrow> string \<Rightarrow> Note" where
  "mkNote i t = \<lparr>noteId = i, title = t, n_type = ''text'', mime = ''text/html'',
     isProtected = False, n_isDeleted = False, n_deleteId = None, utcDateCreated = 0\<rparr>"

definition mkBranch :: "string \<Rightarrow> string \<Rightarrow> string \<Rightarrow> int \<Rightarrow> Branch" where
  "mkBranch i n p pos = \<lparr>branchId = i, b_noteId = n, parentNoteId = p,
     notePosition = Some pos, prefix = None, isExpanded = False, b_isDeleted = False,
     b_deleteId = None\<rparr>"

definition mkAttribute :: "string \<Rightarrow> string \<Rightarrow> string \<Rightarrow> string \<Rightarrow> string \<Rightarrow> Attribute" where
  "mkAttribute i n ty nm v = \<lparr>attributeId = i, a_noteId = n, a_type = ty, a_name = nm,
     a_value = v, a_position = 0, isInheritable = False, a_isDeleted = False,
     a_deleteId = None\<rparr>"

definition docStore :: "string \<Rightarrow> store" where
  "docStore t = \<lparr>t_notes = [mkNote ''parent'' ''Parent'', mkNote ''doc'' t, mkNote ''sub'' ''Sub''],
     t_branches = [mkBranch ''b1'' ''doc'' ''parent'' 10, mkBranch ''b2'' ''sub'' ''doc'' 0],
     t_attributes = [mkAttribute ''a1'' ''doc'' ''label'' ''colour'' ''red'',
                     mkAttribute ''a2'' ''doc'' ''relation'' ''inside'' ''sub'',
                     mkAttribute ''a3'' ''doc'' ''relation'' ''outside'' ''parent''],
     t_contents = [(''parent'', []), (''doc'', ''see sub''), (''sub'', [])],
     t_revisions = [], journal = [], idCounter = 0, progressCount = 0\<rparr>"

definition resultTitle :: "(error + Note \<times> Branch \<times> store) option \<Rightarrow> string" where
  "resultTitle r = (case r of Some (Inr (n, b, s)) \<Rightarrow> title n | _ \<Rightarrow> [])"

definition resultAttributes :: "(error + Note \<times> Branch \<times> store) option \<Rightarrow> (string \<times> string) list" where
  "resultAttributes r =
     (case r of
        Some (Inr (n, b, s)) \<Rightarrow>
          map (\<lambda>a. (a_name a, a_value a)) (filter (\<lambda>a. a_noteId a = noteId n) (t_attributes s))
      | _ \<Rightarrow> [])"

section \<open>The attribute resolver of the tree cache (NoteShort)\<close>

text \<open>
  The client-side note: its identifier, its type, the identifiers of its attributes and
  of its parents. The tree cache holds the notes and the attributes, each found by its
  identifier; an attribute has the columns of the \<open>Attribute\<close> record. The shared
  \<open>noteAttributeCache.attributes\<close> maps a note identifier to the memoized list.
\<close>

record NoteShort =
  ns_noteId :: string
  ns_type :: string
  ns_attributes :: "string list"
  ns_parents :: "string list"

record TreeCache =
  tc_notes :: "NoteShort list"
  tc_attributes :: "Attribute list"

type_synonym noteAttributeCache = "string \<rightharpoonup> Attribute list"

definition lookupNote :: "TreeCache \<Rightarrow> string \<Rightarrow> NoteShort option" where
  "lookupNote tc nid = find (\<lambda>n. ns_noteId n = nid) (tc_notes tc)"

definition lookupAttribute :: "TreeCache \<Rightarrow> string \<Rightarrow> Attribute option" where
  "lookupAttribute tc aid = find (\<lambda>a. attributeId a = aid) (tc_attributes tc)"

text \<open>\<open>getOwnedAttributes()\<close> of NoteShort: the attributes found in the tree cache, in order.\<close>

definition getOwnedAttributes_ns :: "TreeCache \<Rightarrow> NoteShort \<Rightarrow> Attribute list" where
  "getOwnedAttributes_ns tc n = List.map_filter (lookupAttribute tc) (ns_attributes n)"

text \<open>The loop that fills the cache entry: an attribute whose identifier was added already is skipped.\<close>

fun addAttributes :: "string list \<Rightarrow> Attribute list \<Rightarrow> Attribute list" where
  "addAttributes addedAttributeIds [] = []"
| "addAttributes addedAttributeIds (attr # attrs) =
     (if attributeId attr \<in> set addedAttributeIds then addAttributes addedAttributeIds attrs
      else attr # addAttributes (attributeId attr # addedAttributeIds) attrs)"

definition templateAttrs :: "Attribute list list \<Rightarrow> Attribute list" where
  "templateAttrs attrArrs =
     filter (\<lambda>attr. a_type attr = ''relation'' \<and> a_name attr = ''template'') (concat attrArrs)"

definition unvisited :: "TreeCache \<Rightarrow> string list \<Rightarrow> nat" where
  "unvisited tc path = card (set (map ns_noteId (tc_notes tc)) - set path)"

lemma unvisited_less:
  assumes "lookupNote tc nid = Some n" and "nid \<notin> set path"
  shows "unvisited tc (path @ [nid]) < unvisited tc path"
proof -
  from assms(1) have "nid \<in> set (map ns_noteId (tc_notes tc))"
    by (auto simp: lookupNote_def find_Some_iff)
  with assms(2) have "set (map ns_noteId (tc_notes tc)) - set (path @ [nid])
                        \<subset> set (map ns_noteId (tc_notes tc)) - set path"
    by auto
  then show ?thesis
    unfolding unvisited_def by (intro psubset_card_mono) auto
qed

text \<open>
  \<open>__getCachedAttributes(path)\<close>, with \<open>__getInheritableAttributes\<close> inlined in the
  loop over the parents. The method runs on a note of the tree cache, given here by its
  identifier; the parents are \<open>treeCache.getNotesFromCache(this.parents)\<close>, the parents
  that the tree cache holds. The loop over the template relations runs over the
  relations collected before it starts.
\<close>

function getCachedAttributes ::
    "TreeCache \<Rightarrow> string \<Rightarrow> string list \<Rightarrow> noteAttributeCache \<Rightarrow> Attribute list \<times> noteAttributeCache"
  and inheritFromParents ::
    "TreeCache \<Rightarrow> string list \<Rightarrow> string list \<Rightarrow> Attribute list list \<Rightarrow> noteAttributeCache
       \<Rightarrow> Attribute list list \<times> noteAttributeCache"
  and inheritFromTemplates ::
    "TreeCache \<Rightarrow> string \<Rightarrow> Attribute list \<Rightarrow> string list \<Rightarrow> Attribute list list \<Rightarrow> noteAttributeCache
       \<Rightarrow> Attribute list list \<times> noteAttributeCache" where
  "getCachedAttributes tc nid path cache =
     (if nid \<in> set path then ([], cache)
      else
        (case lookupNote tc nid of
           None \<Rightarrow> ([], cache)
         | Some this \<Rightarrow>
             (case cache nid of
                Some attrs \<Rightarrow> (attrs, cache)
              | None \<Rightarrow>
                  (let newPath = path @ [nid];
                       r1 = (if nid \<noteq> ''root''
                             then inheritFromParents tc (ns_parents this) newPath
                                    [getOwnedAttributes_ns tc this] cache
                             else ([getOwnedAttributes_ns tc this], cache));
                       r2 = inheritFromTemplates tc nid (templateAttrs (fst r1)) newPath
                              (fst r1) (snd r1);
                       attrs = addAttributes [] (concat (fst r2))
                   in (attrs, (snd r2)(nid \<mapsto> attrs))))))"
| "inheritFromParents tc [] newPath attrArrs cache = (attrArrs, cache)"
| "inheritFromParents tc (p # ps) newPath attrArrs cache =
     (case lookupNote tc p of
        None \<Rightarrow> inheritFromParents tc ps newPath attrArrs cache
      | Some parentNote \<Rightarrow>
          if ns_type parentNote \<noteq> ''search'' then
            (let r = getCachedAttributes tc p newPath cache
             in inheritFromParents tc ps newPath
                  (attrArrs @ [filter isInheritable (fst r)]) (snd r))
          else inheritFromParents tc ps newPath attrArrs cache)"
| "inheritFromTemplates tc self [] newPath attrArrs cache = (attrArrs, cache)"
| "inheritFromTemplates tc self (templateAttr # rest) newPath attrArrs cache =
     (case lookupNote tc (a_value templateAttr) of
        None \<Rightarrow> inheritFromTemplates tc self rest newPath attrArrs cache
      | Some templateNote \<Rightarrow>
          if ns_noteId templateNote \<noteq> self then
            (let r = getCachedAttributes tc (ns_noteId templateNote) newPath cache
             in inheritFromTemplates tc self rest newPath (attrArrs @ [fst r]) (snd r))
          else inheritFromTemplates tc self rest newPath attrArrs cache)"
  by pat_completeness auto

termination
  by (relation "inv_image (less_than <*lex*> less_than <*lex*> less_than)
        (\<lambda>x. case x of
                Inl (tc, nid, path, cache) \<Rightarrow> (unvisited tc path, 0, 0)
              | Inr (Inl (tc, ps, newPath, r)) \<Rightarrow> (unvisited tc newPath, 1, length ps)
              | Inr (Inr (tc, self, ts, newPath, r)) \<Rightarrow> (unvisited tc newPath, 1, length ts))")
     (auto simp: unvisited_less)

declare getCachedAttributes.simps [simp del]

definition getAttributes :: "TreeCache \<Rightarrow> string \<Rightarrow> noteAttributeCache \<Rightarrow> Attribute list \<times> noteAttributeCache" where
  "getAttributes tc nid cache = getCachedAttributes tc nid [] cache"

text \<open>
  An attribute of the tree cache is one that its identifier finds there. A cache is well
  formed when each memoized list holds attributes of the tree cache only and all the
  attributes that the note owns.
\<close>

definition tabled :: "TreeCache \<Rightarrow> Attribute \<Rightarrow> bool" where
  "tabled tc a = (lookupAttribute tc (attributeId a) = Some a)"

definition cache_ok :: "TreeCache \<Rightarrow> noteAttributeCache \<Rightarrow> bool" where
  "cache_ok tc cache =
     (\<forall>n as. cache n = Some as \<longrightarrow>
        (\<forall>a\<in>set as. tabled tc a)
        \<and> (\<forall>nt. lookupNote tc n = Some nt \<longrightarrow> set (getOwnedAttributes_ns tc nt) \<subseteq> set as))"

text \<open>
  Two notes that are each other's template: \<open>A\<close> owns the label \<open>la\<close> and a template
  relation to \<open>T\<close>, \<open>T\<close> owns the label \<open>lt\<close> and a template relation to \<open>A\<close>. No
  attribute is inheritable and neither note is a parent of the other.
\<close>

definition cycleNoteA :: NoteShort where
  "cycleNoteA = \<lparr>ns_noteId = ''A'', ns_type = ''text'', ns_attributes = [''la'', ''ta''], ns_parents = []\<rparr>"

definition cycleNoteT :: NoteShort where
  "cycleNoteT = \<lparr>ns_noteId = ''T'', ns_type = ''text'', ns_attributes = [''lt'', ''tt''], ns_parents = []\<rparr>"

definition cycleTemplateA :: Attribute where
  "cycleTemplateA = mkAttribute ''ta'' ''A'' ''relation'' ''template'' ''T''"

definition cycleCache :: TreeCache where
  "cycleCache = \<lparr>tc_notes = [cycleNoteA, cycleNoteT],
     tc_attributes =
       [mkAttribute ''la'' ''A'' ''label'' ''colour'' ''red'',
        cycleTemplateA,
        mkAttribute ''lt'' ''T'' ''label'' ''shape'' ''round'',
        mkAttribute ''tt'' ''T'' ''relation'' ''template'' ''A'']\<rparr>"

section \<open>What a cascade of deletions may change\<close>

text \<open>
  A row after the cascade is the row before it, or that row marked deleted under the
  cascade's \<open>deleteId\<close>. \<open>marked\<close> relates two stores whose tables agree row by row in
  this sense; \<open>distinctKeys\<close> says that the primary key of each table is one.
\<close>

definition marked :: "string \<Rightarrow> store \<Rightarrow> store \<Rightarrow> bool" where
  "marked d s s' =
     (list_all2 (\<lambda>x y. y = x \<or> y = markBranch d x) (t_branches s) (t_branches s')
      \<and> list_all2 (\<lambda>x y. y = x \<or> y = markNote d x) (t_notes s) (t_notes s')
      \<and> list_all2 (\<lambda>x y. y = x \<or> y = markAttribute d x) (t_attributes s) (t_attributes s'))"

definition distinctKeys :: "store \<Rightarrow> bool" where
  "distinctKeys s =
     (distinct (map branchId (t_branches s)) \<and> distinct (map noteId (t_notes s))
      \<and> distinct (map attributeId (t_attributes s)))"

text \<open>The branch object is current for a store: the row under its key is the object, or the object marked.\<close>

definition currentBranch :: "string \<Rightarrow> store \<Rightarrow> Branch \<Rightarrow> bool" where
  "currentBranch d s b =
     list_ex (\<lambda>x. branchId x = branchId b \<and> (x = b \<or> x = markBranch d b)) (t_branches s)"








section \<open>Undeleting a note\<close>


definition restoreBranch :: "Branch \<Rightarrow> Branch" where
  "restoreBranch b = b\<lparr>b_isDeleted := False\<rparr>"

definition restoreNote :: "Note \<Rightarrow> Note" where
  "restoreNote n = n\<lparr>n_isDeleted := False\<rparr>"

definition restoreAttribute :: "Attribute \<Rightarrow> Attribute" where
  "restoreAttribute a = a\<lparr>a_isDeleted := False\<rparr>"






text \<open>
  What undeleting under \<open>d\<close> may change: a row after it is the row before it, or that
  row restored when it was deleted under \<open>d\<close>.
\<close>

definition restored :: "string \<Rightarrow> store \<Rightarrow> store \<Rightarrow> bool" where
  "restored d s s' =
     (list_all2 (\<lambda>x y. y = x \<or> (b_isDeleted x \<and> b_deleteId x = Some d \<and> y = restoreBranch x))
        (t_branches s) (t_branches s')
      \<and> list_all2 (\<lambda>x y. y = x \<or> (n_isDeleted x \<and> n_deleteId x = Some d \<and> y = restoreNote x))
          (t_notes s) (t_notes s')
      \<and> list_all2 (\<lambda>x y. y = x \<or> (a_isDeleted x \<and> a_deleteId x = Some d \<and> y = restoreAttribute x))
          (t_attributes s) (t_attributes s'))"

text \<open>The note is deleted under another \<open>deleteId\<close> than \<open>d\<close>.\<close>

definition otherDeleted :: "string \<Rightarrow> store \<Rightarrow> string \<Rightarrow> bool" where
  "otherDeleted d s nid =
     list_ex (\<lambda>n. noteId n = nid \<and> n_isDeleted n \<and> n_deleteId n \<noteq> Some d) (t_notes s)"

text \<open>
  Around a note: every attribute under \<open>d\<close> that it owns or that is a relation to it is
  restored, and so is every branch under it that carries \<open>d\<close>, unless the branch's note
  is deleted under another \<open>deleteId\<close>.
\<close>

definition attrsRestored :: "string \<Rightarrow> string \<Rightarrow> store \<Rightarrow> bool" where
  "attrsRestored d nid s =
     (\<forall>a\<in>set (t_attributes s).
        a_deleteId a = Some d \<and> (a_noteId a = nid \<or> (a_type a = ''relation'' \<and> a_value a = nid))
          \<longrightarrow> \<not> a_isDeleted a)"

definition childrenRestored :: "string \<Rightarrow> string \<Rightarrow> store \<Rightarrow> bool" where
  "childrenRestored d nid s =
     (\<forall>c\<in>set (t_branches s).
        parentNoteId c = nid \<and> b_deleteId c = Some d \<and> \<not> otherDeleted d s (b_noteId c)
          \<longrightarrow> \<not> b_isDeleted c)"

text \<open>Every note that was deleted under \<open>d\<close> and is restored has its surroundings restored.\<close>

definition closure :: "string \<Rightarrow> store \<Rightarrow> store \<Rightarrow> bool" where
  "closure d s s' =
     (\<forall>x\<in>set (t_notes s).
        n_isDeleted x \<and> n_deleteId x = Some d \<and> restoreNote x \<in> set (t_notes s')
          \<longrightarrow> attrsRestored d (noteId x) s' \<and> childrenRestored d (noteId x) s')"


text \<open>What a finished call of \<open>undeleteBranch\<close> on the branches \<open>cs\<close> has done.\<close>

definition undone :: "string \<Rightarrow> Branch list \<Rightarrow> store \<Rightarrow> store \<Rightarrow> bool" where
  "undone d cs s s' =
     (restored d s s' \<and> closure d s s'
      \<and> (\<forall>c\<in>set cs. b_isDeleted c \<longrightarrow>
            (\<not> otherDeleted d s (b_noteId c) \<longrightarrow> restoreBranch c \<in> set (t_branches s'))
            \<and> (\<forall>x\<in>set (t_notes s). noteId x = b_noteId c \<and> n_isDeleted x \<and> n_deleteId x = Some d
                  \<longrightarrow> restoreNote x \<in> set (t_notes s'))))"







section \<open>The consistency checker (src/services/consistency_checks.js)\<close>



























































section \<open>Example stores\<close>

definition exampleParent :: Note where
  "exampleParent = \<lparr>noteId = ''parent'', title = ''Parent'', n_type = ''text'', mime = ''text/html'',
     isProtected = False, n_isDeleted = False, n_deleteId = None, utcDateCreated = 0\<rparr>"

definition exampleSibling :: "string \<Rightarrow> int \<Rightarrow> Branch" where
  "exampleSibling i p = \<lparr>branchId = ''b'' @ i, b_noteId = ''n'' @ i, parentNoteId = ''parent'',
     notePosition = Some p, prefix = None, isExpanded = False, b_isDeleted = False,
     b_deleteId = None\<rparr>"

definition exampleStore :: store where
  "exampleStore = \<lparr>t_notes = [exampleParent],
     t_branches = [exampleSibling ''0'' 0, exampleSibling ''1'' 10, exampleSibling ''2'' 20],
     t_attributes = [], t_contents = [], t_revisions = [], journal = [], idCounter = 0, progressCount = 0\<rparr>"

definition exampleParams :: params where
  "exampleParams = \<lparr>p_parentNoteId = ''parent'', p_title = Some ''New'', p_content = [],
     p_type = Some ''text'', p_mime = None, p_noteId = None, p_isProtected = False,
     p_isExpanded = False, p_prefix = None, p_notePosition = None\<rparr>"

definition exampleGen :: "nat \<Rightarrow> string" where
  "exampleGen n = ''id'' @ replicate n (CHR ''x'')"

definition deletedRootBranch :: Branch where
  "deletedRootBranch = \<lparr>branchId = ''root'', b_noteId = ''root'', parentNoteId = ''none'',
     notePosition = Some 0, prefix = None, isExpanded = True, b_isDeleted = True,
     b_deleteId = Some ''d0''\<rparr>"

definition boundaryNote :: Note where
  "boundaryNote = \<lparr>noteId = ''n1'', title = ''Note'', n_type = ''text'', mime = ''text/html'',
     isProtected = False, n_isDeleted = False, n_deleteId = None, utcDateCreated = 0\<rparr>"

definition boundaryStore :: store where
  "boundaryStore = \<lparr>t_notes = [boundaryNote], t_branches = [], t_attributes = [],
     t_contents = [], t_revisions = [], journal = [], idCounter = 0, progressCount = 0\<rparr>"

definition boundaryUpdates :: noteUpdates where
  "boundaryUpdates = \<lparr>u_title = ''Note'', u_isProtected = False, u_content = None\<rparr>"

definition unsafeStore :: store where
  "unsafeStore = \<lparr>t_notes = [exampleParent],
     t_branches = [exampleSibling ''0'' 9007199254740991],
     t_attributes = [], t_contents = [], t_revisions = [], journal = [], idCounter = 0, progressCount = 0\<rparr>"

definition keepStore :: "Note \<Rightarrow> store \<Rightarrow> store" where
  "keepStore n s = s"

definition resultPosition :: "error + Note \<times> Branch \<times> store \<Rightarrow> int option option" where
  "resultPosition r = (case r of Inr (n, b, s) \<Rightarrow> Some (notePosition b) | Inl e \<Rightarrow> None)"

text \<open>
  A note that owns a relation to the note \<open>constructor\<close>; both lie under \<open>parent\<close>.
\<close>

definition protoStore :: store where
  "protoStore = \<lparr>t_notes = [mkNote ''parent'' ''Parent'', mkNote ''doc'' ''Doc'',
                             mkNote ''constructor'' ''Builder''],
     t_branches = [mkBranch ''b1'' ''doc'' ''parent'' 10, mkBranch ''b3'' ''constructor'' ''parent'' 20],
     t_attributes = [mkAttribute ''a1'' ''doc'' ''relation'' ''see'' ''constructor''],
     t_contents = [(''parent'', []), (''doc'', ''text''), (''constructor'', [])],
     t_revisions = [], journal = [], idCounter = 0, progressCount = 0\<rparr>"

section \<open>Position of a new branch\<close>

lemma fold_max_Max: "fold max ps (p::int) = Max (set (p # ps))"
  by (rule Max.set_eq_fold [symmetric])

lemma siblingPositions_saveNote [simp]: "siblingPositions (saveNote n s) pid = siblingPositions s pid"
  by (simp add: siblingPositions_def saveNote_def)

lemma siblingPositions_setContent [simp]: "siblingPositions (setContent i c s) pid = siblingPositions s pid"
  by (simp add: siblingPositions_def setContent_def)

lemma siblingPositions_idCounter [simp]:
  "siblingPositions (s\<lparr>idCounter := k\<rparr>) pid = siblingPositions s pid"
  by (simp add: siblingPositions_def)

lemma ulp_small: "n < 2 ^ 53 \<Longrightarrow> ulp n = 1"
  by (simp add: ulp.simps)

lemma ulp_limit: "ulp (2 ^ 53) = 2"
proof -
  have "ulp 9007199254740992 = 2"
    by (simp add: ulp.simps [of 9007199254740992] ulp.simps [of 4503599627370496])
  then show ?thesis by simp
qed

lemma roundToDouble_exact:
  assumes "\<bar>x\<bar> \<le> 2 ^ 53"
  shows "roundToDouble x = x"
proof (cases "\<bar>x\<bar> < 2 ^ 53")
  case True
  then have "nat \<bar>x\<bar> < 2 ^ 53"
    by (simp add: nat_less_iff)
  then have "ulp (nat \<bar>x\<bar>) = 1" by (rule ulp_small)
  then have "roundToDouble x = sgn x * \<bar>x\<bar>"
    by (simp add: roundToDouble_def Let_def)
  then show ?thesis by (simp only: sgn_mult_abs)
next
  case False
  with assms have a: "\<bar>x\<bar> = 2 ^ 53" by simp
  then have n: "nat \<bar>x\<bar> = 2 ^ 53"
    by (simp add: nat_eq_iff)
  have "roundToDouble x = sgn x * int (2 ^ 53)"
    unfolding roundToDouble_def n ulp_limit Let_def by simp
  also have "\<dots> = sgn x * \<bar>x\<bar>" using a by simp
  finally show ?thesis by (simp only: sgn_mult_abs)
qed

lemma getNewNotePosition_eq:
  "getNewNotePosition s pid =
     (if siblingPositions s pid = [] then 0 else jsAdd (Max (set (siblingPositions s pid))) 10)"
  by (cases "siblingPositions s pid")
     (simp_all add: getNewNotePosition_def maxNotePos_def fold_max_Max del: set_simps)

text \<open>
  Claim C5, as the code has it. A call of \<open>createNewNote\<close> without an explicit position
  that succeeds places the new branch at 0 when the parent has no branch that is not
  deleted, and otherwise at the double nearest to the greatest position among these
  branches plus 10 (\<open>jsAdd\<close>): this is the greatest position plus 10 whenever that sum is
  at most \<open>2 ^ 53\<close> in size. The positions are read from the store the call starts from.
\<close>

theorem createNewNote_default_position:
  assumes "createNewNote gen scan parentAttrs now ps s = Inr (n, branch, s')"
    and "p_notePosition ps = None"
  shows "notePosition branch =
           Some (if siblingPositions s (p_parentNoteId ps) = [] then 0
                 else jsAdd (Max (set (siblingPositions s (p_parentNoteId ps)))) 10)
         \<and> (siblingPositions s (p_parentNoteId ps) \<noteq> []
              \<and> \<bar>Max (set (siblingPositions s (p_parentNoteId ps))) + 10\<bar> \<le> 2 ^ 53
              \<longrightarrow> notePosition branch
                    = Some (Max (set (siblingPositions s (p_parentNoteId ps))) + 10))
         \<and> (filter (\<lambda>b. parentNoteId b = p_parentNoteId ps \<and> \<not> b_isDeleted b) (t_branches s) = []
              \<longrightarrow> notePosition branch = Some 0)"
proof -
  have pos: "notePosition branch = Some (getNewNotePosition s (p_parentNoteId ps))"
    using assms
    by (auto simp: createNewNote_def Let_def getNewNotePosition_def maxNotePos_def
                   newEntityId_def
             split: option.splits sum.splits if_splits prod.splits)
  have "filter (\<lambda>b. parentNoteId b = p_parentNoteId ps \<and> \<not> b_isDeleted b) (t_branches s) = []
          \<Longrightarrow> siblingPositions s (p_parentNoteId ps) = []"
    by (simp add: siblingPositions_def List.map_filter_simps)
  with pos show ?thesis
    by (simp add: getNewNotePosition_eq jsAdd_def roundToDouble_exact)
qed

lemma example_siblingPositions: "siblingPositions exampleStore ''parent'' = [0, 10, 20]"
  by (simp add: siblingPositions_def exampleStore_def exampleSibling_def List.map_filter_simps)

theorem createNewNote_default_position_witness:
  "\<exists>n branch s'.
     createNewNote exampleGen (\<lambda>n s. s) [] 5 exampleParams exampleStore = Inr (n, branch, s')
     \<and> p_notePosition exampleParams = None
     \<and> notePosition branch = Some 30"
proof -
  obtain n branch s' where
    run: "createNewNote exampleGen (\<lambda>n s. s) [] 5 exampleParams exampleStore = Inr (n, branch, s')"
    by (simp add: createNewNote_def getNote_def exampleStore_def exampleParent_def
                  exampleParams_def blankTitle_def isWhiteSpace_def deriveMime_def
                  newEntityId_def Let_def)
  have np: "p_notePosition exampleParams = None"
    by (simp add: exampleParams_def)
  have pid: "p_parentNoteId exampleParams = ''parent''"
    by (simp add: exampleParams_def)
  have "notePosition branch = Some 30"
    using createNewNote_default_position [OF run np, THEN conjunct2, THEN conjunct1]
    by (simp add: pid example_siblingPositions)
  with run np show ?thesis by blast
qed

text \<open>
  The claim as written has the greatest position plus 10 for every store. With a sibling
  at \<open>2 ^ 53 - 1\<close>, the greatest integer that \<open>Number.isSafeInteger\<close> accepts, the sum
  9007199254741001 is no double and the new branch is placed at 9007199254741000.
\<close>

theorem createNewNote_position_rounding_counterexample:
  "siblingPositions unsafeStore ''parent'' = [9007199254740991]
   \<and> resultPosition (createNewNote exampleGen keepStore [] 5 exampleParams unsafeStore)
       = Some (Some 9007199254741000)"
  by (simp add: siblingPositions_def unsafeStore_def exampleSibling_def exampleParent_def
        List.map_filter_simps createNewNote_def getNote_def exampleParams_def blankTitle_def
        isWhiteSpace_def deriveMime_def newEntityId_def Let_def keepStore_def resultPosition_def
        getNewNotePosition_def maxNotePos_def saveNote_def setContent_def saveBranch_def
        jsAdd_def roundToDouble_def ulp.simps [of 9007199254741001]
        ulp.simps [of 4503599627370500])

section \<open>Deleting an absent or deleted branch\<close>

text \<open>
  Claim C9. When the branch is absent or already marked deleted, \<open>deleteBranch\<close>
  returns false and leaves every table and the journal as they were (only the progress
  counter of the task context moves), whatever the branch's identifiers are: the test
  comes before the guard for the root and the hoisted note, so nothing is raised for
  the root branch or the branch of the hoisted note either.
\<close>

theorem deleteBranch_absent_or_deleted:
  assumes "branch = None \<or> (\<exists>b. branch = Some b \<and> b_isDeleted b)"
  shows "deleteBranch (Suc fuel) hoisted branch deleteId s
           = Some (Inr (False, s\<lparr>progressCount := Suc (progressCount s)\<rparr>))"
  using assms by (auto simp: Let_def)

theorem deleteBranch_absent_or_deleted_witness:
  "b_isDeleted deletedRootBranch \<and> branchId deletedRootBranch = ''root''
   \<and> b_noteId deletedRootBranch = ''root''
   \<and> deleteBranch (Suc 0) ''root'' (Some deletedRootBranch) ''d1'' exampleStore
        = Some (Inr (False, exampleStore\<lparr>progressCount := Suc (progressCount exampleStore)\<rparr>))
   \<and> deleteBranch (Suc 0) ''root'' None ''d1'' exampleStore
        = Some (Inr (False, exampleStore\<lparr>progressCount := Suc (progressCount exampleStore)\<rparr>))"
proof -
  have d: "b_isDeleted deletedRootBranch"
    by (simp add: deletedRootBranch_def)
  have "deleteBranch (Suc 0) ''root'' (Some deletedRootBranch) ''d1'' exampleStore
          = Some (Inr (False, exampleStore\<lparr>progressCount := Suc (progressCount exampleStore)\<rparr>))"
    by (rule deleteBranch_absent_or_deleted) (simp add: d)
  moreover have "deleteBranch (Suc 0) ''root'' None ''d1'' exampleStore
          = Some (Inr (False, exampleStore\<lparr>progressCount := Suc (progressCount exampleStore)\<rparr>))"
    by (rule deleteBranch_absent_or_deleted) simp
  ultimately show ?thesis
    using d by (simp add: deletedRootBranch_def)
qed

section \<open>The revision step of an update\<close>

lemma existingNoteRevisionId_falsy:
  assumes "\<forall>r\<in>set (t_revisions s). noteRevisionId r \<noteq> []"
  shows "(existingNoteRevisionId s nid c = None \<or> existingNoteRevisionId s nid c = Some [])
           \<longleftrightarrow> (\<forall>r\<in>set (t_revisions s). r_noteId r = nid \<longrightarrow> r_utcDateCreated r < c)"
proof (cases "find (\<lambda>r. r_noteId r = nid \<and> r_utcDateCreated r \<ge> c) (t_revisions s)")
  case None
  then show ?thesis
    by (auto simp: existingNoteRevisionId_def find_None_iff not_le)
next
  case (Some r)
  then have "r \<in> set (t_revisions s)" "r_noteId r = nid" "r_utcDateCreated r \<ge> c"
    by (auto simp: find_Some_iff)
  with assms Some show ?thesis
    by (auto simp: existingNoteRevisionId_def)
qed

text \<open>
  Claim C8, as the code has it. \<open>updateNote\<close> runs the revision step first. The step
  takes no revision for a file, an image or a note with the label
  \<open>disableVersioning\<close>; otherwise it takes one exactly when no revision of the note is
  dated at or after the start of the trailing interval and the note is at least as old
  as the interval: an age equal to the interval is enough.
\<close>

theorem updateNote_revision_step:
  assumes "getNote s nid = Some n"
    and "\<not> isProtected n \<or> session"
    and "\<forall>r\<in>set (t_revisions s). noteRevisionId r \<noteq> []"
  shows "updateNote gen links session attrs now interval nid upd s
           = Inr (applyNoteUpdates links upd n (saveNoteRevision gen attrs now interval n s))
         \<and> (n_type n = ''file'' \<or> n_type n = ''image'' \<or> hasLabel attrs ''disableVersioning''
              \<longrightarrow> saveNoteRevision gen attrs now interval n s = s)
         \<and> (\<not> (n_type n = ''file'' \<or> n_type n = ''image'' \<or> hasLabel attrs ''disableVersioning'')
              \<longrightarrow> (if (\<forall>r\<in>set (t_revisions s).
                          r_noteId r = noteId n \<longrightarrow> r_utcDateCreated r < now - interval * 1000)
                        \<and> interval * 1000 \<le> now - utcDateCreated n
                    then t_revisions (saveNoteRevision gen attrs now interval n s)
                           = t_revisions s @ [\<lparr>noteRevisionId = gen (idCounter s),
                                r_noteId = noteId n, r_utcDateCreated = now\<rparr>]
                    else saveNoteRevision gen attrs now interval n s = s))"
proof -
  have "updateNote gen links session attrs now interval nid upd s
           = Inr (applyNoteUpdates links upd n (saveNoteRevision gen attrs now interval n s))"
    using assms(1,2) by (auto simp: updateNote_def)
  moreover have "n_type n = ''file'' \<or> n_type n = ''image'' \<or> hasLabel attrs ''disableVersioning''
              \<longrightarrow> saveNoteRevision gen attrs now interval n s = s"
    by (simp add: saveNoteRevision_def)
  moreover have "\<not> (n_type n = ''file'' \<or> n_type n = ''image'' \<or> hasLabel attrs ''disableVersioning'')
              \<longrightarrow> (if (\<forall>r\<in>set (t_revisions s).
                          r_noteId r = noteId n \<longrightarrow> r_utcDateCreated r < now - interval * 1000)
                        \<and> interval * 1000 \<le> now - utcDateCreated n
                    then t_revisions (saveNoteRevision gen attrs now interval n s)
                           = t_revisions s @ [\<lparr>noteRevisionId = gen (idCounter s),
                                r_noteId = noteId n, r_utcDateCreated = now\<rparr>]
                    else saveNoteRevision gen attrs now interval n s = s)"
    using existingNoteRevisionId_falsy [OF assms(3), of "noteId n" "now - interval * 1000"]
    by (auto simp: saveNoteRevision_def Let_def createNoteRevision_def newEntityId_def)
  ultimately show ?thesis by blast
qed

theorem updateNote_revision_step_witness:
  "getNote boundaryStore ''n1'' = Some boundaryNote
   \<and> t_revisions (saveNoteRevision exampleGen [] 600000 600 boundaryNote boundaryStore)
       = [\<lparr>noteRevisionId = ''id'', r_noteId = ''n1'', r_utcDateCreated = 600000\<rparr>]
   \<and> saveNoteRevision exampleGen [] 599999 600 boundaryNote boundaryStore = boundaryStore
   \<and> updateNote exampleGen (\<lambda>n c s. (c, s)) False [] 600000 600 ''n1'' boundaryUpdates boundaryStore
       = Inr (applyNoteUpdates (\<lambda>n c s. (c, s)) boundaryUpdates boundaryNote
                (saveNoteRevision exampleGen [] 600000 600 boundaryNote boundaryStore))"
proof -
  have g: "getNote boundaryStore ''n1'' = Some boundaryNote"
    by (simp add: getNote_def boundaryStore_def boundaryNote_def)
  have p: "\<not> isProtected boundaryNote \<or> False"
    by (simp add: boundaryNote_def)
  have r: "\<forall>r\<in>set (t_revisions boundaryStore). noteRevisionId r \<noteq> []"
    by (simp add: boundaryStore_def)
  have facts: "n_type boundaryNote = ''text''" "noteId boundaryNote = ''n1''"
      "utcDateCreated boundaryNote = 0" "t_revisions boundaryStore = []"
      "idCounter boundaryStore = 0" "\<not> hasLabel [] ''disableVersioning''"
    by (simp_all add: boundaryNote_def boundaryStore_def hasLabel_def)
  show ?thesis
    using updateNote_revision_step [OF g p r, of exampleGen "\<lambda>n c s. (c, s)" "[]" 600000 600 boundaryUpdates]
          updateNote_revision_step [OF g p r, of exampleGen "\<lambda>n c s. (c, s)" "[]" 599999 600 boundaryUpdates]
    by (simp add: facts g exampleGen_def)
qed

text \<open>
  The claim as written asks for an age that exceeds the interval. A note created at
  time 0 and updated at 600000 ms with an interval of 600 s is exactly as old as the
  interval, has no revision, and gets one.
\<close>

theorem saveNoteRevision_boundary_counterexample:
  "\<not> (600000 - utcDateCreated boundaryNote > 600 * 1000)
   \<and> n_type boundaryNote = ''text''
   \<and> t_revisions boundaryStore = []
   \<and> length (t_revisions (saveNoteRevision exampleGen [] 600000 600 boundaryNote boundaryStore)) = 1"
  by (simp add: saveNoteRevision_def boundaryNote_def boundaryStore_def hasLabel_def Let_def
                existingNoteRevisionId_def createNoteRevision_def newEntityId_def)

section \<open>The title of a duplicate\<close>

lemma endsWith_dupTitle: "endsWith (dupTitle t) ''(dup)''"
  by (simp add: dupTitle_def endsWith_def)

lemma dupTitle_idem: "dupTitle (dupTitle t) = dupTitle t"
  using endsWith_dupTitle [of t] by (simp add: dupTitle_def [of "dupTitle t"])

lemma not_endsWith_space: "\<not> endsWith (t @ '' '') ''(dup)''"
proof
  assume "endsWith (t @ '' '') ''(dup)''"
  then have "drop (length (t @ '' '') - 5) (t @ '' '') = ''(dup)''"
    by (simp add: endsWith_def)
  then have "last (drop (length (t @ '' '') - 5) (t @ '' '')) = CHR '')''"
    by simp
  then show False
    by (simp add: last_drop)
qed

lemma trailingDups_dupTitle: "trailingDups (dupTitle t) = max 1 (trailingDups t)"
proof (cases "endsWith t ''(dup)''")
  case True
  then have "trailingDups t \<ge> 1"
    by (subst trailingDups.simps) simp
  with True show ?thesis
    by (simp add: dupTitle_def)
next
  case False
  have "trailingDups (t @ '' (dup)'') = Suc (trailingDups (t @ '' ''))"
    by (subst trailingDups.simps) (simp add: endsWith_def)
  also have "trailingDups (t @ '' '') = 0"
    using not_endsWith_space [of t] by (subst trailingDups.simps) simp
  finally have "trailingDups (t @ '' (dup)'') = 1" by simp
  moreover have "trailingDups t = 0"
    using False by (subst trailingDups.simps) simp
  ultimately show ?thesis
    using False by (simp add: dupTitle_def)
qed

lemma find_upsert_same: "find (\<lambda>y. key y = key x) (upsert key x xs) = Some x"
  by (induction xs) auto

lemma getNote_saveNote_same: "getNote (saveNote n s) (noteId n) = Some n"
  by (simp add: getNote_def saveNote_def find_upsert_same)

lemma assignIds_notes: "t_notes (snd (assignIds gen ids m s)) = t_notes s"
  by (induction ids arbitrary: m s) (auto simp: newEntityId_def Let_def)

lemma assignIds_values:
  "map_of (fst (assignIds gen ids m s)) k = Some v
     \<Longrightarrow> (\<exists>i\<ge>idCounter s. v = gen i) \<or> map_of m k = Some v"
proof (induction ids arbitrary: m s)
  case Nil
  then show ?case by simp
next
  case (Cons a ids)
  from Cons.prems
  have "map_of (fst (assignIds gen ids (setProperty a (gen (idCounter s)) m)
                       (s\<lparr>idCounter := Suc (idCounter s)\<rparr>))) k = Some v"
    by (simp add: newEntityId_def)
  from Cons.IH [OF this]
  show ?case
    by (auto simp: update_conv' setProperty_def split: if_splits intro: Suc_leD)
qed

lemma duplicateSubtreeInner_title:
  assumes "duplicateSubtreeInner fuel gen session now origNote origBranch p m s = Some (Inr (rn, rb, s2))"
    and "\<And>v. map_of m (noteId origNote) = Some v \<Longrightarrow> getNote s v = None"
  shows "title rn = title origNote"
proof (cases fuel)
  case 0
  with assms(1) show ?thesis by simp
next
  case (Suc f)
  have keep: "\<And>b v. getNote (saveBranch b (s\<lparr>idCounter := Suc (idCounter s)\<rparr>)) v = getNote s v"
    by (simp add: getNote_def saveBranch_def)
  from assms(1) Suc show ?thesis
    using assms(2)
    by (auto simp: cloneNote_def Let_def newEntityId_def keep getProperty_def
             split: if_splits option.splits cloneStep.splits sum.splits jsValue.splits)
qed

lemma duplicateSubtree_result_title:
  assumes "duplicateSubtree fuel gen session now origNoteId newParentNoteId s = Some (Inr (n, b, s'))"
    and "getNote s origNoteId = Some origNote"
    and "\<forall>i. getNote s (gen i) = None"
  shows "title n = dupTitle (title origNote)" and "getNote s' (noteId n) = Some n"
proof -
  obtain m s1 where ms: "getNoteIdMapping gen origNote s = (m, s1)"
    by (cases "getNoteIdMapping gen origNote s")
  from assms(1,2) ms obtain rn s2 where
    inner: "duplicateSubtreeInner fuel gen session now origNote
              (find (\<lambda>branch. parentNoteId branch = newParentNoteId) (getBranches s (noteId origNote)))
              newParentNoteId m s1 = Some (Inr (rn, b, s2))"
    and n: "n = rn\<lparr>title := dupTitle (title rn)\<rparr>" and s': "s' = saveNote n s2"
    by (auto simp: duplicateSubtree_def Let_def split: if_splits option.splits sum.splits)
  have s1: "getNote s1 v = getNote s v" for v
    using ms assignIds_notes [of gen "getDescendantNoteIds s (noteId origNote)" "[]" s]
    by (simp add: getNoteIdMapping_def getNote_def)
  have fresh: "getNote s1 v = None" if "map_of m (noteId origNote) = Some v" for v
  proof -
    from that ms have "\<exists>i\<ge>idCounter s. v = gen i"
      using assignIds_values [of gen "getDescendantNoteIds s (noteId origNote)" "[]" s "noteId origNote" v]
      by (simp add: getNoteIdMapping_def)
    with assms(3) show ?thesis by (auto simp: s1)
  qed
  have t: "title rn = title origNote"
    by (rule duplicateSubtreeInner_title [OF inner fresh])
  show "title n = dupTitle (title origNote)"
    by (simp add: n t)
  show "getNote s' (noteId n) = Some n"
    by (simp add: s' getNote_saveNote_same)
qed

text \<open>
  Claim C6, as the code has it. When \<open>duplicateSubtree\<close> succeeds and no generated
  identifier is the identifier of a note of the store, the title of the note it returns
  and saves is the source's title with \<open>(dup)\<close> added once, unless the source's title
  ends with \<open>(dup)\<close> already: then it is the source's title. So the title ends with
  \<open>(dup)\<close>, duplicating the duplicate leaves the title alone, and the title ends with
  as many \<open>(dup)\<close> as the source's, but with one at least: with exactly one when the
  source's title ends with one or none.
\<close>

theorem duplicateSubtree_title:
  assumes "duplicateSubtree fuel gen session now origNoteId newParentNoteId s = Some (Inr (n, b, s'))"
    and "getNote s origNoteId = Some origNote"
    and "\<forall>i. getNote s (gen i) = None"
  shows "title n = dupTitle (title origNote)
         \<and> getNote s' (noteId n) = Some n
         \<and> endsWith (title n) ''(dup)''
         \<and> dupTitle (title n) = title n
         \<and> trailingDups (title n) = max 1 (trailingDups (title origNote))
         \<and> (trailingDups (title origNote) \<le> 1 \<longrightarrow> trailingDups (title n) = 1)"
proof -
  have 1: "title n = dupTitle (title origNote)"
    by (rule duplicateSubtree_result_title [OF assms])
  have 2: "getNote s' (noteId n) = Some n"
    by (rule duplicateSubtree_result_title [OF assms])
  have 5: "trailingDups (title n) = max 1 (trailingDups (title origNote))"
    by (simp add: 1 trailingDups_dupTitle)
  from 1 2 5 show ?thesis
    by (simp add: endsWith_dupTitle dupTitle_idem)
qed

lemma docStore_run: "succeeded (duplicateSubtree 3 exampleGen True 7 ''doc'' ''parent'' (docStore t))"
  by (simp add: succeeded_def duplicateSubtree_def docStore_def getNote_def mkNote_def
        mkBranch_def mkAttribute_def getBranches_def getNoteIdMapping_def
        getDescendantNoteIds_def expandChildren_def numeral_2_eq_2 numeral_3_eq_3
        newEntityId_def exampleGen_def Let_def cloneNote_def saveBranch_def saveNote_def
        getContent_def setContent_def getOwnedAttributes_def getChildBranches_def
        saveAttribute_def cloneAttribute_def clonedValue_def hasProperty_def getProperty_def
        setProperty_def objectPrototypeNames_def replaceByMap_def startsWith_def update_conv')

lemma docStore_fresh: "\<forall>i. getNote (docStore t) (exampleGen i) = None"
  by (simp add: getNote_def docStore_def mkNote_def exampleGen_def)

lemma docStore_doc: "getNote (docStore t) ''doc'' = Some (mkNote ''doc'' t)"
  by (simp add: getNote_def docStore_def mkNote_def)

theorem duplicateSubtree_title_witness:
  "\<exists>n b s'. duplicateSubtree 3 exampleGen True 7 ''doc'' ''parent'' (docStore ''Doc'') = Some (Inr (n, b, s'))
     \<and> getNote (docStore ''Doc'') ''doc'' = Some (mkNote ''doc'' ''Doc'')
     \<and> (\<forall>i. getNote (docStore ''Doc'') (exampleGen i) = None)
     \<and> title n = ''Doc (dup)'' \<and> trailingDups (title n) = 1"
proof -
  obtain n b s' where
    run: "duplicateSubtree 3 exampleGen True 7 ''doc'' ''parent'' (docStore ''Doc'') = Some (Inr (n, b, s'))"
    using docStore_run [of "''Doc''"]
    by (auto simp: succeeded_def split: option.splits sum.splits)
  have z: "trailingDups ''Doc'' = 0"
    by (subst trailingDups.simps) (simp add: endsWith_def)
  note facts = duplicateSubtree_title [OF run docStore_doc docStore_fresh]
  from facts have t: "title n = dupTitle (title (mkNote ''doc'' ''Doc''))" by blast
  from facts have d: "trailingDups (title n) = max 1 (trailingDups (title (mkNote ''doc'' ''Doc'')))"
    by blast
  have "title n = ''Doc (dup)'' \<and> trailingDups (title n) = 1"
    unfolding d unfolding t by (simp add: mkNote_def dupTitle_def endsWith_def z)
  with run docStore_doc docStore_fresh show ?thesis by blast
qed

text \<open>
  The claim as written promises exactly one suffix for every note. The duplicate of a
  note whose title ends with two keeps both.
\<close>

theorem duplicateSubtree_title_counterexample:
  "resultTitle (duplicateSubtree 3 exampleGen True 7 ''doc'' ''parent'' (docStore ''Doc (dup)(dup)''))
     = ''Doc (dup)(dup)''
   \<and> trailingDups ''Doc (dup)(dup)'' = 2"
proof -
  obtain n b s' where
    run: "duplicateSubtree 3 exampleGen True 7 ''doc'' ''parent'' (docStore ''Doc (dup)(dup)'')
            = Some (Inr (n, b, s'))"
    using docStore_run [of "''Doc (dup)(dup)''"]
    by (auto simp: succeeded_def split: option.splits sum.splits)
  have a: "trailingDups ''Doc '' = 0"
    by (subst trailingDups.simps) (simp add: endsWith_def)
  have b: "trailingDups ''Doc (dup)'' = 1"
    by (subst trailingDups.simps) (simp add: endsWith_def a)
  have c: "trailingDups ''Doc (dup)(dup)'' = 2"
    by (subst trailingDups.simps) (simp add: endsWith_def b)
  have "title n = ''Doc (dup)(dup)''"
    using duplicateSubtree_result_title(1) [OF run docStore_doc docStore_fresh]
    by (simp add: mkNote_def dupTitle_def endsWith_def)
  with run c show ?thesis
    by (simp add: resultTitle_def)
qed


section \<open>Relations of a duplicate\<close>

lemma expandChildren_keeps: "x \<in> set ids \<Longrightarrow> x \<in> set (expandChildren s ids)"
  by (simp add: expandChildren_def)

lemma funpow_expandChildren_keeps: "x \<in> set ids \<Longrightarrow> x \<in> set (((expandChildren s) ^^ k) ids)"
  by (induction k) (simp_all add: expandChildren_keeps)

lemma getDescendantNoteIds_self: "nid \<in> set (getDescendantNoteIds s nid)"
  by (simp add: getDescendantNoteIds_def funpow_expandChildren_keeps)

lemma assignIds_keys:
  "map_of (fst (assignIds gen ids m s)) k \<noteq> None
     \<longleftrightarrow> (k \<in> set ids \<and> k \<noteq> ''__proto__'') \<or> map_of m k \<noteq> None"
proof (induction ids arbitrary: m s)
  case Nil
  show ?case by simp
next
  case (Cons a ids)
  show ?case
    using Cons.IH [of "setProperty a (gen (idCounter s)) m" "s\<lparr>idCounter := Suc (idCounter s)\<rparr>"]
    by (auto simp: newEntityId_def update_conv' setProperty_def)
qed

text \<open>
  The copy of a relation. The mapping that \<open>getNoteIdMapping\<close> builds before anything is
  cloned has an entry for the source and for each of its descendants and for no other
  identifier (\<open>__proto__\<close> gets none), and each entry is an identifier generated for it.
  The copy of a relation points to the mapped identifier when the relation's value is a
  note of the subtree. When it is not, the copy keeps the value, unless the value is a
  name that the mapping inherits: then the value of the copy is the inherited member.
\<close>

lemma cloneAttribute_relation_target:
  assumes "getNoteIdMapping gen origNote s = (m, s1)"
    and "a_type attribute = ''relation''"
  shows "(a_value attribute \<in> set (getDescendantNoteIds s (noteId origNote))
          \<and> a_value attribute \<noteq> ''__proto__''
            \<longrightarrow> (\<exists>i\<ge>idCounter s. map_of m (a_value attribute) = Some (gen i)
                    \<and> cloneAttribute m aid newNoteId attribute
                        = Inr (attribute\<lparr>attributeId := aid, a_noteId := newNoteId,
                                         a_value := gen i\<rparr>)))
         \<and> (a_value attribute \<notin> set (getDescendantNoteIds s (noteId origNote))
            \<and> a_value attribute \<notin> set objectPrototypeNames
            \<longrightarrow> cloneAttribute m aid newNoteId attribute
                  = Inr (attribute\<lparr>attributeId := aid, a_noteId := newNoteId\<rparr>))
         \<and> (a_value attribute \<notin> set (getDescendantNoteIds s (noteId origNote))
            \<and> a_value attribute \<in> set objectPrototypeNames
            \<longrightarrow> clonedValue m attribute = JsInherited (a_value attribute))
         \<and> noteId origNote \<in> set (getDescendantNoteIds s (noteId origNote))"
proof -
  let ?ids = "getDescendantNoteIds s (noteId origNote)"
  have m: "m = fst (assignIds gen ?ids [] s)"
    using assms(1) by (simp add: getNoteIdMapping_def)
  have keys: "map_of m k \<noteq> None \<longleftrightarrow> k \<in> set ?ids \<and> k \<noteq> ''__proto__''" for k
    using assignIds_keys [of gen ?ids "[]" s k] by (simp add: m)
  have vals: "\<exists>i\<ge>idCounter s. v = gen i" if "map_of m k = Some v" for k v
    using assignIds_values [of gen ?ids "[]" s k v] that by (simp add: m)
  have inside: "\<exists>i\<ge>idCounter s. map_of m (a_value attribute) = Some (gen i)
                  \<and> cloneAttribute m aid newNoteId attribute
                        = Inr (attribute\<lparr>attributeId := aid, a_noteId := newNoteId,
                                         a_value := gen i\<rparr>)"
    if "a_value attribute \<in> set ?ids" "a_value attribute \<noteq> ''__proto__''"
  proof -
    from that keys [of "a_value attribute"] obtain v where v: "map_of m (a_value attribute) = Some v"
      by (cases "map_of m (a_value attribute)") simp_all
    from vals [OF v] obtain i where "i \<ge> idCounter s" "v = gen i" by blast
    with v assms(2) show ?thesis
      by (auto simp: cloneAttribute_def clonedValue_def hasProperty_def getProperty_def Let_def)
  qed
  have none: "map_of m (a_value attribute) = None"
    if "a_value attribute \<notin> set ?ids"
    using that keys [of "a_value attribute"] by (cases "map_of m (a_value attribute)") simp_all
  have outside: "cloneAttribute m aid newNoteId attribute
                  = Inr (attribute\<lparr>attributeId := aid, a_noteId := newNoteId\<rparr>)"
    if "a_value attribute \<notin> set ?ids" "a_value attribute \<notin> set objectPrototypeNames"
    using none [OF that(1)] that(2)
    by (simp add: cloneAttribute_def clonedValue_def hasProperty_def getProperty_def Let_def)
  have inherited: "clonedValue m attribute = JsInherited (a_value attribute)"
    if "a_value attribute \<notin> set ?ids" "a_value attribute \<in> set objectPrototypeNames"
    using none [OF that(1)] that(2) assms(2)
    by (simp add: clonedValue_def hasProperty_def getProperty_def)
  from inside outside inherited getDescendantNoteIds_self show ?thesis by blast
qed

lemma docStore_descendants: "getDescendantNoteIds (docStore t) ''doc'' = [''doc'', ''sub'']"
  by (simp add: getDescendantNoteIds_def docStore_def expandChildren_def mkBranch_def numeral_2_eq_2)

lemma docStore_mapping:
  "getNoteIdMapping exampleGen (mkNote ''doc'' t) (docStore t)
     = ([(''doc'', ''id''), (''sub'', ''idx'')], (docStore t)\<lparr>idCounter := 2\<rparr>)"
  by (simp add: getNoteIdMapping_def docStore_descendants mkNote_def newEntityId_def exampleGen_def
        setProperty_def)
     (simp add: docStore_def numeral_2_eq_2)

lemma docStore_resultAttributes:
  "resultAttributes (duplicateSubtree 3 exampleGen True 7 ''doc'' ''parent'' (docStore t))
     = [(''colour'', ''red''), (''inside'', ''idx''), (''outside'', ''parent'')]"
  by (simp add: resultAttributes_def duplicateSubtree_def docStore_def getNote_def mkNote_def
        mkBranch_def mkAttribute_def getBranches_def getNoteIdMapping_def
        getDescendantNoteIds_def expandChildren_def numeral_2_eq_2 numeral_3_eq_3
        newEntityId_def exampleGen_def Let_def cloneNote_def saveBranch_def saveNote_def
        getContent_def setContent_def getOwnedAttributes_def getChildBranches_def
        saveAttribute_def cloneAttribute_def clonedValue_def hasProperty_def getProperty_def
        setProperty_def objectPrototypeNames_def replaceByMap_def startsWith_def update_conv')

text \<open>
  Claim C7 fails on the code. In \<open>protoStore\<close> the note \<open>doc\<close> has no child and owns a
  relation to the note \<open>constructor\<close>, which lies outside the subtree of \<open>doc\<close>: the
  mapping has the one entry for \<open>doc\<close>. \<open>'constructor' in noteIdMapping\<close> holds all the
  same, for every object inherits that property, so the value of the copy is
  \<open>noteIdMapping['constructor']\<close>, the inherited member and not the identifier
  \<open>constructor\<close> that the comment in the loop promises to keep; the copy cannot be
  saved and the duplication raises.
\<close>

theorem duplicateSubtree_inherited_name:
  "getDescendantNoteIds protoStore ''doc'' = [''doc'']
   \<and> getOwnedAttributes protoStore ''doc''
       = [mkAttribute ''a1'' ''doc'' ''relation'' ''see'' ''constructor'']
   \<and> fst (getNoteIdMapping exampleGen (mkNote ''doc'' ''Doc'') protoStore) = [(''doc'', ''id'')]
   \<and> clonedValue [(''doc'', ''id'')] (mkAttribute ''a1'' ''doc'' ''relation'' ''see'' ''constructor'')
       = JsInherited ''constructor''
   \<and> duplicateSubtree 3 exampleGen True 7 ''doc'' ''parent'' protoStore
       = Some (Inl (Error ''TypeError: the value of the attribute is not a string''))"
proof -
  have d: "getDescendantNoteIds protoStore ''doc'' = [''doc'']"
    by (simp add: getDescendantNoteIds_def protoStore_def expandChildren_def mkBranch_def
          numeral_2_eq_2)
  have o: "getOwnedAttributes protoStore ''doc''
       = [mkAttribute ''a1'' ''doc'' ''relation'' ''see'' ''constructor'']"
    by (simp add: getOwnedAttributes_def protoStore_def mkAttribute_def)
  have m: "fst (getNoteIdMapping exampleGen (mkNote ''doc'' ''Doc'') protoStore) = [(''doc'', ''id'')]"
    by (simp add: getNoteIdMapping_def d mkNote_def newEntityId_def exampleGen_def setProperty_def)
       (simp add: protoStore_def)
  have v: "clonedValue [(''doc'', ''id'')] (mkAttribute ''a1'' ''doc'' ''relation'' ''see'' ''constructor'')
       = JsInherited ''constructor''"
    by (simp add: clonedValue_def hasProperty_def getProperty_def objectPrototypeNames_def
          mkAttribute_def)
  have r: "duplicateSubtree 3 exampleGen True 7 ''doc'' ''parent'' protoStore
       = Some (Inl (Error ''TypeError: the value of the attribute is not a string''))"
    by (simp add: duplicateSubtree_def protoStore_def getNote_def mkNote_def
        mkBranch_def mkAttribute_def getBranches_def getNoteIdMapping_def
        getDescendantNoteIds_def expandChildren_def numeral_2_eq_2 numeral_3_eq_3
        newEntityId_def exampleGen_def Let_def cloneNote_def saveBranch_def saveNote_def
        getContent_def setContent_def getOwnedAttributes_def getChildBranches_def
        saveAttribute_def cloneAttribute_def clonedValue_def hasProperty_def getProperty_def
        setProperty_def objectPrototypeNames_def replaceByMap_def startsWith_def update_conv')
  from d o m v r show ?thesis by simp
qed

section \<open>Templates in the attribute resolver\<close>

lemma find_key: "find (\<lambda>y. key y = k) xs = Some x \<Longrightarrow> key x = k"
  by (induction xs) (auto split: if_splits)

lemma map_filter_mem: "a \<in> set (List.map_filter f xs) \<Longrightarrow> \<exists>x\<in>set xs. f x = Some a"
  by (auto simp: List.map_filter_def)

lemma owned_tabled: "a \<in> set (getOwnedAttributes_ns tc n) \<Longrightarrow> tabled tc a"
proof -
  assume "a \<in> set (getOwnedAttributes_ns tc n)"
  then obtain i where i: "lookupAttribute tc i = Some a"
    unfolding getOwnedAttributes_ns_def by (blast dest: map_filter_mem)
  then have "attributeId a = i"
    unfolding lookupAttribute_def by (rule find_key)
  with i show ?thesis by (simp add: tabled_def)
qed

lemma tabled_inj: "tabled tc a \<Longrightarrow> tabled tc b \<Longrightarrow> attributeId a = attributeId b \<Longrightarrow> a = b"
  by (simp add: tabled_def)

lemma set_addAttributes:
  "\<forall>a\<in>set xs. tabled tc a
     \<Longrightarrow> set (addAttributes seen xs) = {a \<in> set xs. attributeId a \<notin> set seen}"
proof (induction xs arbitrary: seen)
  case Nil
  show ?case by simp
next
  case (Cons x xs)
  then have IH: "\<And>seen. set (addAttributes seen xs) = {a \<in> set xs. attributeId a \<notin> set seen}"
    by simp
  from Cons.prems have inj: "\<And>a. a \<in> set xs \<Longrightarrow> attributeId a = attributeId x \<Longrightarrow> a = x"
    by (auto intro: tabled_inj)
  show ?case
    using inj by (auto simp: IH)
qed

lemma getCachedAttributes_memo:
  assumes "nid \<notin> set path" and "lookupNote tc nid = Some n"
  shows "snd (getCachedAttributes tc nid path cache) nid = Some (fst (getCachedAttributes tc nid path cache))"
  using assms
  by (subst (1 2) getCachedAttributes.simps) (simp add: Let_def split: option.splits)

lemma getCachedAttributes_on_path:
  "nid \<in> set path \<Longrightarrow> getCachedAttributes tc nid path cache = ([], cache)"
  by (subst getCachedAttributes.simps) simp

lemma inheritFromParents_extends:
  "\<exists>ext. fst (inheritFromParents tc ps newPath acc cache) = acc @ ext"
proof (induction ps arbitrary: acc cache)
  case Nil
  show ?case by simp
next
  case (Cons p ps)
  show ?case
  proof (cases "lookupNote tc p")
    case None
    then show ?thesis using Cons.IH by simp
  next
    case (Some pn)
    show ?thesis
    proof (cases "ns_type pn \<noteq> ''search''")
      case True
      obtain ext where
        "fst (inheritFromParents tc ps newPath
                (acc @ [filter isInheritable (fst (getCachedAttributes tc p newPath cache))])
                (snd (getCachedAttributes tc p newPath cache)))
           = (acc @ [filter isInheritable (fst (getCachedAttributes tc p newPath cache))]) @ ext"
        using Cons.IH by blast
      with Some True show ?thesis by (simp add: Let_def)
    next
      case False
      with Some show ?thesis using Cons.IH by simp
    qed
  qed
qed

lemma inheritFromTemplates_extends:
  "\<exists>ext. fst (inheritFromTemplates tc self ts newPath acc cache) = acc @ ext"
proof (induction ts arbitrary: acc cache)
  case Nil
  show ?case by simp
next
  case (Cons t ts)
  show ?case
  proof (cases "lookupNote tc (a_value t)")
    case None
    then show ?thesis using Cons.IH by simp
  next
    case (Some tn)
    show ?thesis
    proof (cases "ns_noteId tn \<noteq> self")
      case True
      obtain ext where
        "fst (inheritFromTemplates tc self ts newPath
                (acc @ [fst (getCachedAttributes tc (ns_noteId tn) newPath cache)])
                (snd (getCachedAttributes tc (ns_noteId tn) newPath cache)))
           = (acc @ [fst (getCachedAttributes tc (ns_noteId tn) newPath cache)]) @ ext"
        using Cons.IH by blast
      with Some True show ?thesis by (simp add: Let_def)
    next
      case False
      with Some show ?thesis using Cons.IH by simp
    qed
  qed
qed

lemma map_le_upd_new: "c \<subseteq>\<^sub>m c' \<Longrightarrow> c k = None \<Longrightarrow> c \<subseteq>\<^sub>m c'(k \<mapsto> v)"
  by (auto simp: map_le_def dom_def)

lemma resolver_mono:
  shows "cache \<subseteq>\<^sub>m snd (getCachedAttributes tc nid path cache)"
    and "cache \<subseteq>\<^sub>m snd (inheritFromParents tc ps newPath acc cache)"
    and "cache \<subseteq>\<^sub>m snd (inheritFromTemplates tc self ts newPath' acc' cache)"
proof (induction tc nid path cache and tc ps newPath acc cache and tc self ts newPath' acc' cache
       rule: getCachedAttributes_inheritFromParents_inheritFromTemplates.induct)
  case (1 tc nid path cache)
  show ?case
  proof (cases "nid \<in> set path \<or> lookupNote tc nid = None \<or> cache nid \<noteq> None")
    case True
    then show ?thesis
      by (subst getCachedAttributes.simps) (auto split: option.splits)
  next
    case False
    then obtain this where c: "nid \<notin> set path" "lookupNote tc nid = Some this" "cache nid = None"
      by auto
    define r1 where "r1 = (if nid \<noteq> ''root''
                             then inheritFromParents tc (ns_parents this) (path @ [nid])
                                    [getOwnedAttributes_ns tc this] cache
                             else ([getOwnedAttributes_ns tc this], cache))"
    define r2 where "r2 = inheritFromTemplates tc nid (templateAttrs (fst r1)) (path @ [nid])
                              (fst r1) (snd r1)"
    have a: "cache \<subseteq>\<^sub>m snd r1"
      using "1.IH"(1) [OF c(1,2,3) refl] by (simp add: r1_def)
    have b: "snd r1 \<subseteq>\<^sub>m snd r2"
      using "1.IH"(2) [OF c(1,2,3) refl r1_def] by (simp add: r2_def)
    have res: "snd (getCachedAttributes tc nid path cache)
                 = (snd r2)(nid \<mapsto> addAttributes [] (concat (fst r2)))"
      using c by (subst getCachedAttributes.simps) (simp add: Let_def r1_def r2_def)
    from a b have "cache \<subseteq>\<^sub>m snd r2" by (rule map_le_trans)
    then show ?thesis
      unfolding res using c(3) by (rule map_le_upd_new)
  qed
next
  case (2 tc newPath attrArrs cache)
  show ?case by simp
next
  case (3 tc p ps newPath attrArrs cache)
  show ?case
  proof (cases "lookupNote tc p")
    case None
    then show ?thesis using "3.IH"(1) by simp
  next
    case (Some pn)
    show ?thesis
    proof (cases "ns_type pn \<noteq> ''search''")
      case True
      have a: "cache \<subseteq>\<^sub>m snd (getCachedAttributes tc p newPath cache)"
        using "3.IH"(2) [OF Some True] .
      have b: "snd (getCachedAttributes tc p newPath cache)
                 \<subseteq>\<^sub>m snd (inheritFromParents tc ps newPath
                           (attrArrs @ [filter isInheritable (fst (getCachedAttributes tc p newPath cache))])
                           (snd (getCachedAttributes tc p newPath cache)))"
        using "3.IH"(3) [OF Some True refl] .
      from a b show ?thesis
        using Some True by (simp add: Let_def) (rule map_le_trans)
    next
      case False
      with Some show ?thesis using "3.IH"(4) by simp
    qed
  qed
next
  case (4 tc self newPath attrArrs cache)
  show ?case by simp
next
  case (5 tc self templateAttr rest newPath attrArrs cache)
  show ?case
  proof (cases "lookupNote tc (a_value templateAttr)")
    case None
    then show ?thesis using "5.IH"(1) by simp
  next
    case (Some tn)
    show ?thesis
    proof (cases "ns_noteId tn \<noteq> self")
      case True
      have a: "cache \<subseteq>\<^sub>m snd (getCachedAttributes tc (ns_noteId tn) newPath cache)"
        using "5.IH"(2) [OF Some True] .
      have b: "snd (getCachedAttributes tc (ns_noteId tn) newPath cache)
                 \<subseteq>\<^sub>m snd (inheritFromTemplates tc self rest newPath
                           (attrArrs @ [fst (getCachedAttributes tc (ns_noteId tn) newPath cache)])
                           (snd (getCachedAttributes tc (ns_noteId tn) newPath cache)))"
        using "5.IH"(3) [OF Some True refl] .
      from a b show ?thesis
        using Some True by (simp add: Let_def) (rule map_le_trans)
    next
      case False
      with Some show ?thesis using "5.IH"(4) by simp
    qed
  qed
qed

lemma cache_ok_upd:
  assumes "cache_ok tc c" and "\<forall>a\<in>set as. tabled tc a"
    and "\<And>nt. lookupNote tc k = Some nt \<Longrightarrow> set (getOwnedAttributes_ns tc nt) \<subseteq> set as"
  shows "cache_ok tc (c(k \<mapsto> as))"
  using assms unfolding cache_ok_def by (auto split: if_splits)

lemma resolver_ok:
  shows "cache_ok tc cache
           \<Longrightarrow> cache_ok tc (snd (getCachedAttributes tc nid path cache))
               \<and> (\<forall>a\<in>set (fst (getCachedAttributes tc nid path cache)). tabled tc a)"
    and "cache_ok tc cache \<Longrightarrow> (\<forall>as\<in>set acc. \<forall>a\<in>set as. tabled tc a)
           \<Longrightarrow> cache_ok tc (snd (inheritFromParents tc ps newPath acc cache))
               \<and> (\<forall>as\<in>set (fst (inheritFromParents tc ps newPath acc cache)). \<forall>a\<in>set as. tabled tc a)"
    and "cache_ok tc cache \<Longrightarrow> (\<forall>as\<in>set acc'. \<forall>a\<in>set as. tabled tc a)
           \<Longrightarrow> cache_ok tc (snd (inheritFromTemplates tc self ts newPath' acc' cache))
               \<and> (\<forall>as\<in>set (fst (inheritFromTemplates tc self ts newPath' acc' cache)). \<forall>a\<in>set as. tabled tc a)"
proof (induction tc nid path cache and tc ps newPath acc cache and tc self ts newPath' acc' cache
       rule: getCachedAttributes_inheritFromParents_inheritFromTemplates.induct)
  case (1 tc nid path cache)
  note ok = \<open>cache_ok tc cache\<close>
  show ?case
  proof (cases "nid \<in> set path \<or> lookupNote tc nid = None")
    case True
    then show ?thesis
      using ok by (subst (1 2) getCachedAttributes.simps) (auto split: option.splits)
  next
    case False
    then obtain this where c: "nid \<notin> set path" "lookupNote tc nid = Some this"
      by auto
    show ?thesis
    proof (cases "cache nid")
      case (Some attrs)
      then have "getCachedAttributes tc nid path cache = (attrs, cache)"
        using c by (subst getCachedAttributes.simps) simp
      moreover from ok Some have "\<forall>a\<in>set attrs. tabled tc a"
        unfolding cache_ok_def by blast
      ultimately show ?thesis using ok by simp
    next
      case None
      define r1 where "r1 = (if nid \<noteq> ''root''
                             then inheritFromParents tc (ns_parents this) (path @ [nid])
                                    [getOwnedAttributes_ns tc this] cache
                             else ([getOwnedAttributes_ns tc this], cache))"
      define r2 where "r2 = inheritFromTemplates tc nid (templateAttrs (fst r1)) (path @ [nid])
                              (fst r1) (snd r1)"
      define attrs where "attrs = addAttributes [] (concat (fst r2))"
      have res: "getCachedAttributes tc nid path cache = (attrs, (snd r2)(nid \<mapsto> attrs))"
        using c None
        by (subst getCachedAttributes.simps) (simp add: Let_def r1_def r2_def attrs_def)
      have own: "\<forall>as\<in>set [getOwnedAttributes_ns tc this]. \<forall>a\<in>set as. tabled tc a"
        by (simp add: owned_tabled)
      have a: "cache_ok tc (snd r1) \<and> (\<forall>as\<in>set (fst r1). \<forall>a\<in>set as. tabled tc a)"
      proof (cases "nid \<noteq> ''root''")
        case True
        then show ?thesis
          using "1.IH"(1) [OF c(1,2) None refl True ok own] by (simp add: r1_def)
      next
        case False
        then show ?thesis using ok own by (simp add: r1_def)
      qed
      have b: "cache_ok tc (snd r2) \<and> (\<forall>as\<in>set (fst r2). \<forall>a\<in>set as. tabled tc a)"
        using "1.IH"(2) [OF c(1,2) None refl r1_def] a by (simp add: r2_def)
      then have tab: "\<forall>a\<in>set (concat (fst r2)). tabled tc a"
        by auto
      have set_attrs: "set attrs = set (concat (fst r2))"
        using set_addAttributes [OF tab, of "[]"] by (auto simp: attrs_def)
      obtain e1 where e1: "fst r1 = [getOwnedAttributes_ns tc this] @ e1"
        using inheritFromParents_extends [of tc "ns_parents this" "path @ [nid]"
                "[getOwnedAttributes_ns tc this]" cache]
        by (cases "nid \<noteq> ''root''") (auto simp: r1_def)
      obtain e2 where e2: "fst r2 = fst r1 @ e2"
        using inheritFromTemplates_extends [of tc nid "templateAttrs (fst r1)" "path @ [nid]"
                "fst r1" "snd r1"]
        by (auto simp: r2_def)
      have owned: "set (getOwnedAttributes_ns tc this) \<subseteq> set attrs"
        by (auto simp: set_attrs e2 e1)
      have "cache_ok tc ((snd r2)(nid \<mapsto> attrs))"
      proof (rule cache_ok_upd)
        show "cache_ok tc (snd r2)" using b by simp
        show "\<forall>a\<in>set attrs. tabled tc a" using tab by (simp add: set_attrs)
        show "set (getOwnedAttributes_ns tc nt) \<subseteq> set attrs" if "lookupNote tc nid = Some nt" for nt
          using that c(2) owned by simp
      qed
      moreover have "\<forall>a\<in>set attrs. tabled tc a"
        using tab by (simp add: set_attrs)
      ultimately show ?thesis unfolding res fst_conv snd_conv by blast
    qed
  qed
next
  case (2 tc newPath attrArrs cache)
  then show ?case by simp
next
  case (3 tc p ps newPath attrArrs cache)
  note ok = \<open>cache_ok tc cache\<close> and tab = \<open>\<forall>as\<in>set attrArrs. \<forall>a\<in>set as. tabled tc a\<close>
  show ?case
  proof (cases "lookupNote tc p")
    case None
    then show ?thesis using "3.IH"(1) [OF None ok tab] by simp
  next
    case (Some pn)
    show ?thesis
    proof (cases "ns_type pn \<noteq> ''search''")
      case True
      have a: "cache_ok tc (snd (getCachedAttributes tc p newPath cache))
                 \<and> (\<forall>a\<in>set (fst (getCachedAttributes tc p newPath cache)). tabled tc a)"
        using "3.IH"(2) [OF Some True ok] .
      then have t: "\<forall>as\<in>set (attrArrs @ [filter isInheritable (fst (getCachedAttributes tc p newPath cache))]).
                      \<forall>a\<in>set as. tabled tc a"
        using tab by auto
      show ?thesis
        using "3.IH"(3) [OF Some True refl conjunct1 [OF a] t] Some True by (simp add: Let_def)
    next
      case False
      with Some show ?thesis using "3.IH"(4) [OF Some _ ok tab] by simp
    qed
  qed
next
  case (4 tc self newPath attrArrs cache)
  then show ?case by simp
next
  case (5 tc self templateAttr rest newPath attrArrs cache)
  note ok = \<open>cache_ok tc cache\<close> and tab = \<open>\<forall>as\<in>set attrArrs. \<forall>a\<in>set as. tabled tc a\<close>
  show ?case
  proof (cases "lookupNote tc (a_value templateAttr)")
    case None
    then show ?thesis using "5.IH"(1) [OF None ok tab] by simp
  next
    case (Some tn)
    show ?thesis
    proof (cases "ns_noteId tn \<noteq> self")
      case True
      have a: "cache_ok tc (snd (getCachedAttributes tc (ns_noteId tn) newPath cache))
                 \<and> (\<forall>a\<in>set (fst (getCachedAttributes tc (ns_noteId tn) newPath cache)). tabled tc a)"
        using "5.IH"(2) [OF Some True ok] .
      then have t: "\<forall>as\<in>set (attrArrs @ [fst (getCachedAttributes tc (ns_noteId tn) newPath cache)]).
                      \<forall>a\<in>set as. tabled tc a"
        using tab by auto
      show ?thesis
        using "5.IH"(3) [OF Some True refl conjunct1 [OF a] t] Some True by (simp add: Let_def)
    next
      case False
      with Some show ?thesis using "5.IH"(4) [OF Some _ ok tab] by simp
    qed
  qed
qed

lemma lookupNote_id: "lookupNote tc k = Some n \<Longrightarrow> ns_noteId n = k"
  unfolding lookupNote_def by (rule find_key)

lemma inheritFromTemplates_includes:
  assumes "t \<in> set ts" and "lookupNote tc (a_value t) = Some tn"
    and "ns_noteId tn \<noteq> self" and "ns_noteId tn \<notin> set newPath"
  shows "\<exists>as. snd (inheritFromTemplates tc self ts newPath acc cache) (ns_noteId tn) = Some as
              \<and> as \<in> set (fst (inheritFromTemplates tc self ts newPath acc cache))"
  using assms(1)
proof (induction ts arbitrary: acc cache)
  case Nil
  then show ?case by simp
next
  case (Cons t' rest)
  have tn: "lookupNote tc (ns_noteId tn) = Some tn"
    using assms(2) lookupNote_id [OF assms(2)] by simp
  show ?case
  proof (cases "t = t'")
    case True
    define r where "r = getCachedAttributes tc (ns_noteId tn) newPath cache"
    have step: "inheritFromTemplates tc self (t' # rest) newPath acc cache
                  = inheritFromTemplates tc self rest newPath (acc @ [fst r]) (snd r)"
      using True assms(2,3) by (simp add: Let_def r_def)
    have memo: "snd r (ns_noteId tn) = Some (fst r)"
      unfolding r_def by (rule getCachedAttributes_memo [OF assms(4) tn])
    have "snd r \<subseteq>\<^sub>m snd (inheritFromTemplates tc self rest newPath (acc @ [fst r]) (snd r))"
      by (rule resolver_mono)
    with memo have 1: "snd (inheritFromTemplates tc self rest newPath (acc @ [fst r]) (snd r))
                         (ns_noteId tn) = Some (fst r)"
      by (auto simp: map_le_def dom_def)
    obtain ext where "fst (inheritFromTemplates tc self rest newPath (acc @ [fst r]) (snd r))
                        = (acc @ [fst r]) @ ext"
      using inheritFromTemplates_extends by blast
    then have 2: "fst r \<in> set (fst (inheritFromTemplates tc self rest newPath (acc @ [fst r]) (snd r)))"
      by simp
    from 1 2 show ?thesis unfolding step by blast
  next
    case False
    with Cons.prems have mem: "t \<in> set rest" by simp
    show ?thesis
    proof (cases "lookupNote tc (a_value t')")
      case None
      then show ?thesis using Cons.IH [OF mem] by simp
    next
      case (Some tn')
      then show ?thesis
        using Cons.IH [OF mem] by (cases "ns_noteId tn' \<noteq> self") (simp_all add: Let_def)
    qed
  qed
qed

lemma getAttributes_unfold:
  assumes "lookupNote tc A = Some noteA" and "cache A = None"
  defines "r1 \<equiv> (if A \<noteq> ''root''
                   then inheritFromParents tc (ns_parents noteA) [A] [getOwnedAttributes_ns tc noteA] cache
                   else ([getOwnedAttributes_ns tc noteA], cache))"
  defines "r2 \<equiv> inheritFromTemplates tc A (templateAttrs (fst r1)) [A] (fst r1) (snd r1)"
  shows "getAttributes tc A cache
           = (addAttributes [] (concat (fst r2)), (snd r2)(A \<mapsto> addAttributes [] (concat (fst r2))))"
  using assms(1,2) unfolding getAttributes_def r1_def r2_def
  by (subst getCachedAttributes.simps) (simp add: Let_def)

lemma getAttributes_template_includes:
  assumes A: "lookupNote tc A = Some noteA" and fresh: "cache A = None" and ok: "cache_ok tc cache"
    and own: "templateAttr \<in> set (getOwnedAttributes_ns tc noteA)"
    and rel: "a_type templateAttr = ''relation''" and nm: "a_name templateAttr = ''template''"
    and T: "lookupNote tc (a_value templateAttr) = Some noteT"
  shows "set (getOwnedAttributes_ns tc noteT) \<subseteq> set (fst (getAttributes tc A cache))"
    and "set (fst (getAttributes tc (a_value templateAttr) (snd (getAttributes tc A cache))))
           \<subseteq> set (fst (getAttributes tc A cache))"
proof -
  define r1 where "r1 = (if A \<noteq> ''root''
                   then inheritFromParents tc (ns_parents noteA) [A] [getOwnedAttributes_ns tc noteA] cache
                   else ([getOwnedAttributes_ns tc noteA], cache))"
  define r2 where "r2 = inheritFromTemplates tc A (templateAttrs (fst r1)) [A] (fst r1) (snd r1)"
  define attrs where "attrs = addAttributes [] (concat (fst r2))"
  have res: "getAttributes tc A cache = (attrs, (snd r2)(A \<mapsto> attrs))"
    using getAttributes_unfold [of tc A noteA cache] A fresh by (simp add: r1_def r2_def attrs_def)
  have own_tab: "\<forall>as\<in>set [getOwnedAttributes_ns tc noteA]. \<forall>a\<in>set as. tabled tc a"
    by (simp add: owned_tabled)
  have a: "cache_ok tc (snd r1) \<and> (\<forall>as\<in>set (fst r1). \<forall>a\<in>set as. tabled tc a)"
    using resolver_ok(2) [OF ok own_tab, of "ns_parents noteA" "[A]"] ok own_tab
    by (cases "A \<noteq> ''root''") (simp_all add: r1_def)
  have b: "cache_ok tc (snd r2) \<and> (\<forall>as\<in>set (fst r2). \<forall>a\<in>set as. tabled tc a)"
    using resolver_ok(3) [of tc "snd r1" "fst r1" A "templateAttrs (fst r1)" "[A]"] a
    by (simp add: r2_def)
  then have tab: "\<forall>a\<in>set (concat (fst r2)). tabled tc a" by auto
  have set_attrs: "set attrs = set (concat (fst r2))"
    using set_addAttributes [OF tab, of "[]"] by (auto simp: attrs_def)
  obtain e1 where e1: "fst r1 = [getOwnedAttributes_ns tc noteA] @ e1"
    using inheritFromParents_extends [of tc "ns_parents noteA" "[A]" "[getOwnedAttributes_ns tc noteA]" cache]
    by (cases "A \<noteq> ''root''") (auto simp: r1_def)
  obtain e2 where e2: "fst r2 = fst r1 @ e2"
    using inheritFromTemplates_extends [of tc A "templateAttrs (fst r1)" "[A]" "fst r1" "snd r1"]
    by (auto simp: r2_def)
  have ownA: "set (getOwnedAttributes_ns tc noteA) \<subseteq> set attrs"
    by (auto simp: set_attrs e2 e1)
  have T_id: "ns_noteId noteT = a_value templateAttr"
    by (rule lookupNote_id [OF T])
  have goal: "set (getOwnedAttributes_ns tc noteT) \<subseteq> set attrs
              \<and> (\<exists>as. ((snd r2)(A \<mapsto> attrs)) (a_value templateAttr) = Some as \<and> set as \<subseteq> set attrs)"
  proof (cases "a_value templateAttr = A")
    case True
    with A T have "noteT = noteA" by simp
    with ownA True show ?thesis by simp
  next
    case False
    have mem: "templateAttr \<in> set (templateAttrs (fst r1))"
      using own rel nm by (simp add: templateAttrs_def e1)
    from False T_id have ne: "ns_noteId noteT \<noteq> A" and np: "ns_noteId noteT \<notin> set [A]"
      by simp_all
    obtain as where as: "snd r2 (ns_noteId noteT) = Some as" "as \<in> set (fst r2)"
      using inheritFromTemplates_includes [OF mem T ne np, of "fst r1" "snd r1"]
      by (auto simp: r2_def)
    from as(2) have sub: "set as \<subseteq> set attrs"
      by (auto simp: set_attrs)
    have T': "lookupNote tc (ns_noteId noteT) = Some noteT"
      using T T_id by simp
    from b as(1) T' have "set (getOwnedAttributes_ns tc noteT) \<subseteq> set as"
      unfolding cache_ok_def by blast
    with sub as(1) False T_id show ?thesis by auto
  qed
  show "set (getOwnedAttributes_ns tc noteT) \<subseteq> set (fst (getAttributes tc A cache))"
    using goal by (simp add: res)
  from goal obtain as where
    as: "((snd r2)(A \<mapsto> attrs)) (a_value templateAttr) = Some as" "set as \<subseteq> set attrs"
    by blast
  have "getAttributes tc (a_value templateAttr) ((snd r2)(A \<mapsto> attrs)) = (as, (snd r2)(A \<mapsto> attrs))"
    unfolding getAttributes_def using as(1) T
    by (subst getCachedAttributes.simps) simp
  then show "set (fst (getAttributes tc (a_value templateAttr) (snd (getAttributes tc A cache))))
           \<subseteq> set (fst (getAttributes tc A cache))"
    using as(2) unfolding res by simp
qed

text \<open>
  What holds on a note that is not memoized yet. Let \<open>A\<close> be such a note of the tree
  cache, owning a relation named \<open>template\<close> whose value is the note \<open>T\<close> of the tree
  cache, and let every memoized list hold attributes of the tree cache and the owned
  attributes of its note (an empty cache does). Then \<open>getAttributes()\<close> on \<open>A\<close> returns
  every attribute that \<open>T\<close> owns, and every attribute that \<open>getAttributes()\<close> on \<open>T\<close>
  returns right after; nothing is asked of \<open>T\<close>'s place in the tree or of the
  attributes' inheritable flag. A call on a note that is on the path already returns the
  empty list and leaves the cache alone. The resolver is a total function: the number of
  notes of the tree cache that are not on the path falls with each call that goes on.
\<close>

lemma getAttributes_template_fresh:
  assumes "lookupNote tc A = Some noteA" and "cache A = None" and "cache_ok tc cache"
    and "templateAttr \<in> set (getOwnedAttributes_ns tc noteA)"
    and "a_type templateAttr = ''relation''" and "a_name templateAttr = ''template''"
    and "lookupNote tc (a_value templateAttr) = Some noteT"
  shows "set (getOwnedAttributes_ns tc noteT) \<subseteq> set (fst (getAttributes tc A cache))
         \<and> set (fst (getAttributes tc (a_value templateAttr) (snd (getAttributes tc A cache))))
             \<subseteq> set (fst (getAttributes tc A cache))
         \<and> (\<forall>nid path c. nid \<in> set path \<longrightarrow> getCachedAttributes tc nid path c = ([], c))"
  using getAttributes_template_includes [OF assms] getCachedAttributes_on_path
  by blast

lemma cycle_lookup:
  "lookupNote cycleCache ''A'' = Some cycleNoteA" "lookupNote cycleCache ''T'' = Some cycleNoteT"
  by (simp_all add: lookupNote_def cycleCache_def cycleNoteA_def cycleNoteT_def)

lemma cycle_owned_A:
  "getOwnedAttributes_ns cycleCache cycleNoteA
     = [mkAttribute ''la'' ''A'' ''label'' ''colour'' ''red'', cycleTemplateA]"
  by (simp add: getOwnedAttributes_ns_def cycleNoteA_def List.map_filter_simps lookupAttribute_def
        cycleCache_def mkAttribute_def cycleTemplateA_def)

lemma cycle_fresh_A:
  "map attributeId (fst (getAttributes cycleCache ''A'' Map.empty)) = [''la'', ''ta'', ''lt'', ''tt'']"
  by code_simp

lemma cycle_on_path:
  "fst (getCachedAttributes cycleCache ''A'' [''T'', ''A''] Map.empty) = []"
  by code_simp

lemma getAttributes_template_fresh_example:
  "lookupNote cycleCache ''A'' = Some cycleNoteA
   \<and> cache_ok cycleCache Map.empty
   \<and> cycleTemplateA \<in> set (getOwnedAttributes_ns cycleCache cycleNoteA)
   \<and> a_value cycleTemplateA = ''T'' \<and> \<not> isInheritable cycleTemplateA
   \<and> set (getOwnedAttributes_ns cycleCache cycleNoteT)
       \<subseteq> set (fst (getAttributes cycleCache ''A'' Map.empty))
   \<and> map attributeId (fst (getAttributes cycleCache ''A'' Map.empty)) = [''la'', ''ta'', ''lt'', ''tt'']
   \<and> getCachedAttributes cycleCache ''A'' [''T'', ''A''] Map.empty = ([], Map.empty)"
proof -
  have ok: "cache_ok cycleCache Map.empty"
    by (simp add: cache_ok_def)
  have own: "cycleTemplateA \<in> set (getOwnedAttributes_ns cycleCache cycleNoteA)"
    by (simp add: cycle_owned_A)
  have t: "a_type cycleTemplateA = ''relation''" "a_name cycleTemplateA = ''template''"
      "a_value cycleTemplateA = ''T''" "\<not> isInheritable cycleTemplateA"
    by (simp_all add: cycleTemplateA_def mkAttribute_def)
  have T: "lookupNote cycleCache (a_value cycleTemplateA) = Some cycleNoteT"
    by (simp add: t cycle_lookup)
  have fresh: "Map.empty ''A'' = (None :: Attribute list option)"
    by simp
  note thm_A = getAttributes_template_fresh [OF cycle_lookup(1) fresh ok own t(1) t(2) T]
  from thm_A have 1: "set (getOwnedAttributes_ns cycleCache cycleNoteT)
       \<subseteq> set (fst (getAttributes cycleCache ''A'' Map.empty))"
    by blast
  from thm_A have 2: "getCachedAttributes cycleCache ''A'' [''T'', ''A''] Map.empty = ([], Map.empty)"
    by simp
  from 1 2 ok own t cycle_lookup(1) cycle_fresh_A show ?thesis
    by blast
qed

text \<open>
  Claim C3 fails on the code. \<open>A\<close> owns a relation named \<open>template\<close> whose value is
  \<open>T\<close>, and \<open>T\<close> owns the attributes \<open>lt\<close> and \<open>tt\<close>. After \<open>getAttributes()\<close> on
  \<open>T\<close> with an empty cache, which resolved \<open>A\<close> with \<open>T\<close> on the path and memoized for
  \<open>A\<close> the list that was cut at the cycle, \<open>getAttributes()\<close> on \<open>A\<close> returns \<open>A\<close>'s
  own attributes only: none of \<open>T\<close>'s attributes is among them. The cycle itself is cut
  and the calls return, as the claim says.
\<close>

theorem getAttributes_template_lost:
  "cycleTemplateA \<in> set (getOwnedAttributes_ns cycleCache cycleNoteA)
   \<and> a_type cycleTemplateA = ''relation'' \<and> a_name cycleTemplateA = ''template''
   \<and> a_value cycleTemplateA = ''T''
   \<and> lookupNote cycleCache ''T'' = Some cycleNoteT
   \<and> map attributeId (getOwnedAttributes_ns cycleCache cycleNoteT) = [''lt'', ''tt'']
   \<and> map attributeId (fst (getAttributes cycleCache ''T'' Map.empty)) = [''lt'', ''tt'', ''la'', ''ta'']
   \<and> map attributeId
        (fst (getAttributes cycleCache ''A'' (snd (getAttributes cycleCache ''T'' Map.empty))))
       = [''la'', ''ta'']"
proof -
  have 1: "cycleTemplateA \<in> set (getOwnedAttributes_ns cycleCache cycleNoteA)"
    by (simp add: cycle_owned_A)
  have 2: "a_type cycleTemplateA = ''relation''" "a_name cycleTemplateA = ''template''"
      "a_value cycleTemplateA = ''T''"
    by (simp_all add: cycleTemplateA_def mkAttribute_def)
  have 3: "map attributeId (getOwnedAttributes_ns cycleCache cycleNoteT) = [''lt'', ''tt'']"
    by (simp add: getOwnedAttributes_ns_def cycleNoteT_def List.map_filter_simps
          lookupAttribute_def cycleCache_def mkAttribute_def cycleTemplateA_def)
  have 4: "map attributeId (fst (getAttributes cycleCache ''T'' Map.empty)) = [''lt'', ''tt'', ''la'', ''ta'']"
    by code_simp
  have 5: "map attributeId
        (fst (getAttributes cycleCache ''A'' (snd (getAttributes cycleCache ''T'' Map.empty))))
       = [''la'', ''ta'']"
    by code_simp
  from 1 2 3 4 5 cycle_lookup(2) show ?thesis by simp
qed

section \<open>The memoized attributes depend on the order of the calls\<close>

text \<open>
  Claim C10 fails on the code. With the two notes that are each other's template,
  \<open>getAttributes()\<close> on \<open>T\<close> with an empty cache returns the attributes of both notes.
  After \<open>getAttributes()\<close> on \<open>A\<close>, which memoized for \<open>T\<close> the list that was cut at
  the cycle, the same call on \<open>T\<close> returns \<open>T\<close>'s own attributes only.
\<close>

theorem getAttributes_depends_on_history:
  "map attributeId (fst (getAttributes cycleCache ''T'' Map.empty)) = [''lt'', ''tt'', ''la'', ''ta'']
   \<and> map attributeId
        (fst (getAttributes cycleCache ''T'' (snd (getAttributes cycleCache ''A'' Map.empty))))
       = [''lt'', ''tt'']"
  by code_simp


section \<open>The cascade of deleteBranch\<close>













lemma distinct_key_eq:
  "distinct (map k xs) \<Longrightarrow> x \<in> set xs \<Longrightarrow> y \<in> set xs \<Longrightarrow> k x = k y \<Longrightarrow> x = y"
  by (meson distinct_map inj_onD)

lemma mark_idem [simp]:
  "markBranch d (markBranch d b) = markBranch d b"
  "markNote d (markNote d n) = markNote d n"
  "markAttribute d (markAttribute d a) = markAttribute d a"
  by (simp_all add: markBranch_def markNote_def markAttribute_def)


lemma marked_refl [simp]: "marked d s s"
  by (simp add: marked_def list_all2_same)

lemma marked_progress [simp]: "marked d s (s\<lparr>progressCount := k\<rparr>)"
  by (simp add: marked_def list_all2_same)
















lemma currentBranch_progress [simp]:
  "currentBranch d (s\<lparr>progressCount := k\<rparr>) b = currentBranch d s b"
  by (simp add: currentBranch_def)

lemma distinctKeys_progress [simp]:
  "distinctKeys (s\<lparr>progressCount := k\<rparr>) = distinctKeys s"
  by (simp add: distinctKeys_def)


























section \<open>What undeleteNote restores\<close>

lemma restore_idem [simp]:
  "restoreBranch (restoreBranch b) = restoreBranch b"
  "restoreNote (restoreNote n) = restoreNote n"
  "restoreAttribute (restoreAttribute a) = restoreAttribute a"
  by (simp_all add: restoreBranch_def restoreNote_def restoreAttribute_def)

lemma restore_fields [simp]:
  "branchId (restoreBranch b) = branchId b" "b_noteId (restoreBranch b) = b_noteId b"
  "parentNoteId (restoreBranch b) = parentNoteId b" "\<not> b_isDeleted (restoreBranch b)"
  "b_deleteId (restoreBranch b) = b_deleteId b"
  "noteId (restoreNote n) = noteId n" "\<not> n_isDeleted (restoreNote n)"
  "n_deleteId (restoreNote n) = n_deleteId n"
  "attributeId (restoreAttribute a) = attributeId a" "a_noteId (restoreAttribute a) = a_noteId a"
  "a_type (restoreAttribute a) = a_type a" "a_value (restoreAttribute a) = a_value a"
  "\<not> a_isDeleted (restoreAttribute a)" "a_deleteId (restoreAttribute a) = a_deleteId a"
  by (simp_all add: restoreBranch_def restoreNote_def restoreAttribute_def)

lemma restored_refl [simp]: "restored d s s"
  by (simp add: restored_def list_all2_same)




















lemma restoreNote_deleted_absent:
  assumes "distinctKeys s" and "x \<in> set (t_notes s)" and "n_isDeleted x"
  shows "restoreNote x \<notin> set (t_notes s)"
proof
  assume r: "restoreNote x \<in> set (t_notes s)"
  have "distinct (map noteId (t_notes s))" using assms(1) by (simp add: distinctKeys_def)
  from distinct_key_eq [OF this r assms(2)] have "restoreNote x = x" by simp
  then have "\<not> n_isDeleted x" by (metis restore_fields(7))
  with assms(3) show False by simp
qed

lemma closure_same_notes:
  "distinctKeys s \<Longrightarrow> t_notes s' = t_notes s \<Longrightarrow> closure d s s'"
  unfolding closure_def by (auto dest: restoreNote_deleted_absent)


lemma undone_Nil [simp]: "distinctKeys s \<Longrightarrow> undone d [] s s"
  by (simp add: undone_def closure_same_notes)






















section \<open>One pass of the checker, and the pass after it\<close>





















end
